theory Spec2Isabelle
  imports Complex_Main "HOL-Library.Word"
begin

unbundle bit_operations_syntax

section \<open>JavaScript values used by the renderer\<close>

text \<open>
  A JavaScript string is a sequence of UTF-16 code units; \<open>length\<close> counts code units.
  Numbers that hold pixel coordinates, channel values, sizes and bit patterns are modelled
  as \<open>int\<close>; the arithmetic on fractions (averages, blending, brightness) is carried out
  in \<open>real\<close>, without the rounding of binary floating point (the weights of the
  brightness are the decimal fractions the source writes).  The bitwise operators of JavaScript convert their operands to signed 32-bit
  integers; that conversion is written out with \<open>32 word\<close>.
\<close>

type_synonym jsstring = "nat list"

definition js_and :: "int \<Rightarrow> int \<Rightarrow> int" where
  "js_and m n = sint ((word_of_int m :: 32 word) AND word_of_int n)"

definition js_or :: "int \<Rightarrow> int \<Rightarrow> int" where
  "js_or m n = sint ((word_of_int m :: 32 word) OR word_of_int n)"

definition js_xor :: "int \<Rightarrow> int \<Rightarrow> int" where
  "js_xor m n = sint ((word_of_int m :: 32 word) XOR word_of_int n)"

text \<open>\<open>m << n\<close>: the shift count is taken modulo 32.\<close>

definition js_shl :: "int \<Rightarrow> int \<Rightarrow> int" where
  "js_shl m n = sint (push_bit (nat (n mod 32)) (word_of_int m :: 32 word))"

text \<open>\<open>m >> n\<close>: the sign-propagating right shift.\<close>

definition js_sar :: "int \<Rightarrow> int \<Rightarrow> int" where
  "js_sar m n = sint (signed_drop_bit (nat (n mod 32)) (word_of_int m :: 32 word))"

text \<open>\<open>Math.round\<close> rounds to the nearest integer, halves upwards.\<close>

definition math_round :: "real \<Rightarrow> int" where
  "math_round v = \<lfloor>v + 1 / 2\<rfloor>"

section \<open>Color model (colors.ts)\<close>

text \<open>
  The interface \<open>Color\<close> has the fields \<open>r\<close>, \<open>g\<close>, \<open>b\<close> and the optional \<open>a\<close>; they are
  the selectors \<open>red\<close>, \<open>green\<close>, \<open>blue\<close> and \<open>alpha\<close> here.
\<close>

record color =
  red :: int
  green :: int
  blue :: int
  alpha :: "int option"

definition clampByte :: "real \<Rightarrow> int" where
  "clampByte v = max 0 (min 255 (math_round v))"

definition ALPHA_THRESHOLD :: int where
  "ALPHA_THRESHOLD = 128"

definition BLACK :: color where
  "BLACK = \<lparr>red = 0, green = 0, blue = 0, alpha = Some 255\<rparr>"

definition WHITE :: color where
  "WHITE = \<lparr>red = 255, green = 255, blue = 255, alpha = Some 255\<rparr>"

definition TRANSPARENT :: color where
  "TRANSPARENT = \<lparr>red = 0, green = 0, blue = 0, alpha = Some 0\<rparr>"

text \<open>\<open>c.a ?? 255\<close>\<close>

definition alpha_or_255 :: "color \<Rightarrow> int" where
  "alpha_or_255 c = (case alpha c of None \<Rightarrow> 255 | Some v \<Rightarrow> v)"

definition getBrightness :: "color \<Rightarrow> int" where
  "getBrightness c =
     clampByte (299 / 1000 * real_of_int (red c) + 587 / 1000 * real_of_int (green c)
                + 114 / 1000 * real_of_int (blue c))"

definition isPixelOn :: "color \<Rightarrow> int \<Rightarrow> bool" where
  "isPixelOn c threshold =
     (case alpha c of
        Some v \<Rightarrow> if v < ALPHA_THRESHOLD then False else getBrightness c \<ge> threshold
      | None \<Rightarrow> getBrightness c \<ge> threshold)"

definition averageColors :: "color list \<Rightarrow> color" where
  "averageColors colors =
     (if length colors = 0 then BLACK
      else
        let n = real (length colors);
            sr = sum_list (map red colors);
            sg = sum_list (map green colors);
            sb = sum_list (map blue colors);
            sa = sum_list (map alpha_or_255 colors)
        in \<lparr>red = clampByte (real_of_int sr / n),
            green = clampByte (real_of_int sg / n),
            blue = clampByte (real_of_int sb / n),
            alpha = Some (clampByte (real_of_int sa / n))\<rparr>)"

definition blendColors :: "color \<Rightarrow> color \<Rightarrow> color" where
  "blendColors fg bg =
     (let fgA = real_of_int (alpha_or_255 fg) / 255;
          bgA = real_of_int (alpha_or_255 bg) / 255;
          outA = fgA + bgA * (1 - fgA)
      in if outA = 0 then TRANSPARENT
         else \<lparr>red = clampByte ((real_of_int (red fg) * fgA
                                   + real_of_int (red bg) * bgA * (1 - fgA)) / outA),
               green = clampByte ((real_of_int (green fg) * fgA
                                   + real_of_int (green bg) * bgA * (1 - fgA)) / outA),
               blue = clampByte ((real_of_int (blue fg) * fgA
                                   + real_of_int (blue bg) * bgA * (1 - fgA)) / outA),
               alpha = Some (clampByte (outA * 255))\<rparr>)"

definition interpolateColor :: "color \<Rightarrow> color \<Rightarrow> real \<Rightarrow> color" where
  "interpolateColor color1 color2 t =
     (let clampedT = max 0 (min 1 t);
          a1 = alpha_or_255 color1;
          a2 = alpha_or_255 color2
      in \<lparr>red = clampByte (real_of_int (red color1)
                              + real_of_int (red color2 - red color1) * clampedT),
          green = clampByte (real_of_int (green color1)
                              + real_of_int (green color2 - green color1) * clampedT),
          blue = clampByte (real_of_int (blue color1)
                              + real_of_int (blue color2 - blue color1) * clampedT),
          alpha = Some (clampByte (real_of_int a1 + real_of_int (a2 - a1) * clampedT))\<rparr>)"

definition rgb :: "int \<Rightarrow> int \<Rightarrow> int \<Rightarrow> int option \<Rightarrow> color" where
  "rgb rv gv bv av =
     \<lparr>red = clampByte (real_of_int rv), green = clampByte (real_of_int gv),
      blue = clampByte (real_of_int bv),
      alpha = (case av of Some v \<Rightarrow> Some (clampByte (real_of_int v)) | None \<Rightarrow> None)\<rparr>"

definition colorsEqual :: "color \<Rightarrow> color \<Rightarrow> bool" where
  "colorsEqual c1 c2 =
     (red c1 = red c2 \<and> green c1 = green c2 \<and> blue c1 = blue c2
      \<and> alpha_or_255 c1 = alpha_or_255 c2)"

section \<open>Symbol catalog (symbols.ts)\<close>

record symbolDef =
  sym_char :: jsstring
  sym_pattern :: int
  sym_width :: int
  sym_height :: int

definition mk_symbol :: "jsstring \<Rightarrow> int \<Rightarrow> int \<Rightarrow> int \<Rightarrow> symbolDef" where
  "mk_symbol c p w h = \<lparr>sym_char = c, sym_pattern = p, sym_width = w, sym_height = h\<rparr>"

definition BRAILLE_BASE :: int where
  "BRAILLE_BASE = 10240"

text \<open>
  \<open>String.fromCodePoint(BRAILLE_BASE + (pattern & 0xff))\<close>: the code point lies in
  U+2800..U+28FF, so the string is one code unit.
\<close>

definition getBrailleChar :: "int \<Rightarrow> jsstring" where
  "getBrailleChar pattern = [nat (BRAILLE_BASE + js_and pattern 255)]"

definition generateBrailleSymbols :: "symbolDef list" where
  "generateBrailleSymbols =
     map (\<lambda>n. mk_symbol (getBrailleChar (int n)) (int n) 2 4) [0..<256]"

definition BRAILLE_SYMBOLS :: "symbolDef list" where
  "BRAILLE_SYMBOLS = generateBrailleSymbols"

text \<open>The hand-written tables; each glyph is given by its UTF-16 code units.\<close>

definition ASCII_SYMBOLS :: "symbolDef list" where
  "ASCII_SYMBOLS =
     [mk_symbol [32] 0 1 1,
      mk_symbol [46] 1 1 1,
      mk_symbol [44] 1 1 1,
      mk_symbol [45] 1 1 1,
      mk_symbol [126] 1 1 1,
      mk_symbol [43] 1 1 1,
      mk_symbol [61] 1 1 1,
      mk_symbol [42] 1 1 1,
      mk_symbol [35] 1 1 1,
      mk_symbol [64] 1 1 1]"

definition HALF_BLOCK_SYMBOLS :: "symbolDef list" where
  "HALF_BLOCK_SYMBOLS =
     [mk_symbol [32] 0 1 2,
      mk_symbol [9600] 1 1 2,
      mk_symbol [9604] 2 1 2,
      mk_symbol [9608] 3 1 2]"

definition QUADRANT_SYMBOLS :: "symbolDef list" where
  "QUADRANT_SYMBOLS =
     [mk_symbol [32] 0 2 2,
      mk_symbol [9624] 1 2 2,
      mk_symbol [9629] 2 2 2,
      mk_symbol [9600] 3 2 2,
      mk_symbol [9622] 4 2 2,
      mk_symbol [9612] 5 2 2,
      mk_symbol [9630] 6 2 2,
      mk_symbol [9627] 7 2 2,
      mk_symbol [9623] 8 2 2,
      mk_symbol [9626] 9 2 2,
      mk_symbol [9616] 10 2 2,
      mk_symbol [9628] 11 2 2,
      mk_symbol [9604] 12 2 2,
      mk_symbol [9625] 13 2 2,
      mk_symbol [9631] 14 2 2,
      mk_symbol [9608] 15 2 2]"

definition SEXTANT_SYMBOLS :: "symbolDef list" where
  "SEXTANT_SYMBOLS =
     [mk_symbol [32] 0 2 3,
      mk_symbol [55358, 57088] 1 2 3,
      mk_symbol [55358, 57089] 2 2 3,
      mk_symbol [55358, 57090] 3 2 3,
      mk_symbol [55358, 57091] 4 2 3,
      mk_symbol [55358, 57092] 5 2 3,
      mk_symbol [55358, 57093] 6 2 3,
      mk_symbol [55358, 57094] 7 2 3,
      mk_symbol [55358, 57095] 8 2 3,
      mk_symbol [55358, 57096] 9 2 3,
      mk_symbol [55358, 57097] 10 2 3,
      mk_symbol [55358, 57098] 11 2 3,
      mk_symbol [55358, 57099] 12 2 3,
      mk_symbol [55358, 57100] 13 2 3,
      mk_symbol [55358, 57101] 14 2 3,
      mk_symbol [55358, 57102] 15 2 3,
      mk_symbol [55358, 57103] 16 2 3,
      mk_symbol [55358, 57104] 17 2 3,
      mk_symbol [55358, 57105] 18 2 3,
      mk_symbol [55358, 57106] 19 2 3,
      mk_symbol [55358, 57107] 20 2 3,
      mk_symbol [9612] 21 2 3,
      mk_symbol [55358, 57108] 22 2 3,
      mk_symbol [55358, 57109] 23 2 3,
      mk_symbol [55358, 57110] 24 2 3,
      mk_symbol [55358, 57111] 25 2 3,
      mk_symbol [55358, 57112] 26 2 3,
      mk_symbol [55358, 57113] 27 2 3,
      mk_symbol [55358, 57114] 28 2 3,
      mk_symbol [55358, 57115] 29 2 3,
      mk_symbol [55358, 57116] 30 2 3,
      mk_symbol [55358, 57117] 31 2 3,
      mk_symbol [55358, 57118] 32 2 3,
      mk_symbol [55358, 57119] 33 2 3,
      mk_symbol [55358, 57120] 34 2 3,
      mk_symbol [55358, 57121] 35 2 3,
      mk_symbol [55358, 57122] 36 2 3,
      mk_symbol [55358, 57123] 37 2 3,
      mk_symbol [55358, 57124] 38 2 3,
      mk_symbol [55358, 57125] 39 2 3,
      mk_symbol [55358, 57126] 40 2 3,
      mk_symbol [55358, 57127] 41 2 3,
      mk_symbol [9616] 42 2 3,
      mk_symbol [55358, 57128] 43 2 3,
      mk_symbol [55358, 57129] 44 2 3,
      mk_symbol [55358, 57130] 45 2 3,
      mk_symbol [55358, 57131] 46 2 3,
      mk_symbol [55358, 57132] 47 2 3,
      mk_symbol [55358, 57133] 48 2 3,
      mk_symbol [55358, 57134] 49 2 3,
      mk_symbol [55358, 57135] 50 2 3,
      mk_symbol [55358, 57136] 51 2 3,
      mk_symbol [55358, 57137] 52 2 3,
      mk_symbol [55358, 57138] 53 2 3,
      mk_symbol [55358, 57139] 54 2 3,
      mk_symbol [55358, 57140] 55 2 3,
      mk_symbol [55358, 57141] 56 2 3,
      mk_symbol [55358, 57142] 57 2 3,
      mk_symbol [55358, 57143] 58 2 3,
      mk_symbol [55358, 57144] 59 2 3,
      mk_symbol [55358, 57145] 60 2 3,
      mk_symbol [55358, 57146] 61 2 3,
      mk_symbol [55358, 57147] 62 2 3,
      mk_symbol [9608] 63 2 3]"

datatype symbolSet = ASCII | HALF | QUADRANT | BRAILLE | SEXTANT

text \<open>
  \<open>SYMBOL_SET_MAP[name] ?? HALF_BLOCK_SYMBOLS\<close>: every value of the enumeration has an
  entry, so the default is never taken.
\<close>

fun getSymbolSet :: "symbolSet \<Rightarrow> symbolDef list" where
  "getSymbolSet ASCII = ASCII_SYMBOLS"
| "getSymbolSet HALF = HALF_BLOCK_SYMBOLS"
| "getSymbolSet QUADRANT = QUADRANT_SYMBOLS"
| "getSymbolSet BRAILLE = BRAILLE_SYMBOLS"
| "getSymbolSet SEXTANT = SEXTANT_SYMBOLS"

text \<open>The result is the pair \<open>(width, height)\<close>.\<close>

definition getSymbolDimensions :: "symbolSet \<Rightarrow> int \<times> int" where
  "getSymbolDimensions name =
     (case getSymbolSet name of
        [] \<Rightarrow> (1, 2)
      | first # _ \<Rightarrow> (sym_width first, sym_height first))"

text \<open>\<open>BRAILLE_DOTS\<close>, in the order \<open>DOT1\<close> .. \<open>DOT8\<close>.\<close>

definition DOT1 :: int where "DOT1 = 1"
definition DOT2 :: int where "DOT2 = 2"
definition DOT3 :: int where "DOT3 = 4"
definition DOT4 :: int where "DOT4 = 8"
definition DOT5 :: int where "DOT5 = 16"
definition DOT6 :: int where "DOT6 = 32"
definition DOT7 :: int where "DOT7 = 64"
definition DOT8 :: int where "DOT8 = 128"

section \<open>Region mapper (mapper.ts)\<close>

text \<open>
  \<open>countBits\<close>: the loop \<open>while (v) { count += v & 1; v >>= 1; }\<close>.  The shift propagates
  the sign, so the loop does not return on a negative argument; not returning is \<open>None\<close>.
\<close>

partial_function (option) countBits_loop :: "int \<Rightarrow> int \<Rightarrow> int option" where
  "countBits_loop v count =
     (if v \<noteq> 0 then countBits_loop (js_sar v 1) (count + js_and v 1) else Some count)"

definition countBits :: "int \<Rightarrow> int option" where
  "countBits n = countBits_loop n 0"

text \<open>
  The second loop of \<open>findBestSymbol\<close>; \<open>minDistance = None\<close> stands for \<open>Infinity\<close>.
\<close>

fun closest_loop :: "int \<Rightarrow> symbolDef list \<Rightarrow> symbolDef \<Rightarrow> int option \<Rightarrow> symbolDef option" where
  "closest_loop pattern [] bestSymbol minDistance = Some bestSymbol"
| "closest_loop pattern (s # rest) bestSymbol minDistance =
     (case countBits (js_xor pattern (sym_pattern s)) of
        None \<Rightarrow> None
      | Some distance \<Rightarrow>
          if (case minDistance of None \<Rightarrow> True | Some m \<Rightarrow> distance < m)
          then closest_loop pattern rest s (Some distance)
          else closest_loop pattern rest bestSymbol minDistance)"

definition findBestSymbol :: "int \<Rightarrow> symbolDef list \<Rightarrow> symbolDef option" where
  "findBestSymbol pattern symbols =
     (case find (\<lambda>s. sym_pattern s = pattern) symbols of
        Some s \<Rightarrow> Some s
      | None \<Rightarrow>
          closest_loop pattern symbols
            (case symbols of [] \<Rightarrow> mk_symbol [32] 0 1 1 | s # _ \<Rightarrow> s) None)"

type_synonym pixelBuffer = "color list list"

text \<open>
  \<open>getPixelSafe\<close>: \<open>pixels[y]\<close> is \<open>undefined\<close> for a row index outside the buffer, and the
  function then returns \<open>BLACK\<close>.
\<close>

definition getPixelSafe :: "pixelBuffer \<Rightarrow> int \<Rightarrow> int \<Rightarrow> color" where
  "getPixelSafe pixels x y =
     (if 0 \<le> y \<and> y < int (length pixels)
      then (let row = pixels ! nat y
            in if x \<ge> 0 \<and> x < int (length row) then row ! nat x else BLACK)
      else BLACK)"

record regionResult =
  res_pattern :: int
  res_fg :: color
  res_bg :: color

text \<open>
  The body of the two nested loops of \<open>mapRegionToPattern\<close>; the state is
  \<open>(patternBits, fgColors, bgColors)\<close>.
\<close>

definition scan_pixel ::
  "pixelBuffer \<Rightarrow> int \<Rightarrow> int \<Rightarrow> int \<Rightarrow> int \<Rightarrow> int
   \<Rightarrow> bool list \<times> color list \<times> color list \<Rightarrow> bool list \<times> color list \<times> color list" where
  "scan_pixel pixels startX startY threshold y x st =
     (case st of (patternBits, fgColors, bgColors) \<Rightarrow>
        let c = getPixelSafe pixels (startX + x) (startY + y);
            on = isPixelOn c threshold
        in if on then (patternBits @ [on], fgColors @ [c], bgColors)
           else (patternBits @ [on], fgColors, bgColors @ [c]))"

definition scan_region ::
  "pixelBuffer \<Rightarrow> int \<Rightarrow> int \<Rightarrow> int \<Rightarrow> int \<Rightarrow> int \<Rightarrow> bool list \<times> color list \<times> color list" where
  "scan_region pixels startX startY width height threshold =
     foldl (\<lambda>st y.
              foldl (\<lambda>st x. scan_pixel pixels startX startY threshold (int y) (int x) st)
                st [0..<nat width])
       ([], [], []) [0..<nat height]"

text \<open>The loop \<open>if (patternBits[i]) bitPattern |= 1 << i\<close>.\<close>

definition bits_to_pattern :: "bool list \<Rightarrow> int" where
  "bits_to_pattern patternBits =
     foldl (\<lambda>bitPattern i.
              if patternBits ! i then js_or bitPattern (js_shl 1 (int i)) else bitPattern)
       0 [0..<length patternBits]"

definition mapRegionToPattern ::
  "pixelBuffer \<Rightarrow> int \<Rightarrow> int \<Rightarrow> int \<Rightarrow> int \<Rightarrow> int \<Rightarrow> regionResult" where
  "mapRegionToPattern pixels startX startY width height threshold =
     (case scan_region pixels startX startY width height threshold of
        (patternBits, fgColors, bgColors) \<Rightarrow>
          \<lparr>res_pattern = bits_to_pattern patternBits,
           res_fg = averageColors fgColors,
           res_bg = averageColors bgColors\<rparr>)"

text \<open>\<open>BRAILLE_DOT_MAP\<close>: the entries \<open>(x, y, bit)\<close>.\<close>

definition BRAILLE_DOT_MAP :: "(int \<times> int \<times> int) list" where
  "BRAILLE_DOT_MAP =
     [(0, 0, DOT1), (0, 1, DOT2), (0, 2, DOT3), (0, 3, DOT7),
      (1, 0, DOT4), (1, 1, DOT5), (1, 2, DOT6), (1, 3, DOT8)]"

definition braille_dot ::
  "pixelBuffer \<Rightarrow> int \<Rightarrow> int \<Rightarrow> int
   \<Rightarrow> int \<times> color list \<times> color list \<Rightarrow> int \<times> int \<times> int \<Rightarrow> int \<times> color list \<times> color list" where
  "braille_dot pixels startX startY threshold st dot =
     (case st of (pattern, fgColors, bgColors) \<Rightarrow>
        case dot of (dx, dy, dbit) \<Rightarrow>
          let c = getPixelSafe pixels (startX + dx) (startY + dy)
          in if isPixelOn c threshold then (js_or pattern dbit, fgColors @ [c], bgColors)
             else (pattern, fgColors, bgColors @ [c]))"

definition mapBrailleRegion :: "pixelBuffer \<Rightarrow> int \<Rightarrow> int \<Rightarrow> int \<Rightarrow> regionResult" where
  "mapBrailleRegion pixels startX startY threshold =
     (case foldl (braille_dot pixels startX startY threshold) (0, [], []) BRAILLE_DOT_MAP of
        (pattern, fgColors, bgColors) \<Rightarrow>
          \<lparr>res_pattern = pattern,
           res_fg = averageColors fgColors,
           res_bg = averageColors bgColors\<rparr>)"

record cell =
  cell_char :: jsstring
  cell_fg :: color
  cell_bg :: color

text \<open>
  The body of the inner loop of \<open>mapPixelsToCells\<close>: the cell at column \<open>cx\<close> of row
  \<open>cy\<close>.  It is \<open>None\<close> when \<open>findBestSymbol\<close> does not return.
\<close>

definition cell_at ::
  "pixelBuffer \<Rightarrow> symbolSet \<Rightarrow> int \<Rightarrow> symbolDef list \<Rightarrow> int \<times> int \<Rightarrow> nat \<Rightarrow> nat \<Rightarrow> cell option" where
  "cell_at pixels symbolSetName threshold symbols dims cy cx =
     (let startX = int cx * fst dims;
          startY = int cy * snd dims
      in if symbolSetName = BRAILLE
         then (let result = mapBrailleRegion pixels startX startY threshold
               in Some \<lparr>cell_char = getBrailleChar (res_pattern result),
                        cell_fg = res_fg result, cell_bg = res_bg result\<rparr>)
         else (let result = mapRegionToPattern pixels startX startY (fst dims) (snd dims) threshold
               in case findBestSymbol (res_pattern result) symbols of
                    None \<Rightarrow> None
                  | Some symbol \<Rightarrow>
                      Some \<lparr>cell_char = sym_char symbol,
                            cell_fg = res_fg result, cell_bg = res_bg result\<rparr>))"

text \<open>
  \<open>mapPixelsToCells\<close>: the rows are built in order; the result is \<open>None\<close> when some cell
  is not produced.
\<close>

definition mapPixelsToCells :: "pixelBuffer \<Rightarrow> symbolSet \<Rightarrow> int \<Rightarrow> cell list list option" where
  "mapPixelsToCells pixels symbolSetName threshold =
     (let symbols = getSymbolSet symbolSetName;
          dims = getSymbolDimensions symbolSetName
      in case pixels of
           [] \<Rightarrow> Some []
         | firstRow # _ \<Rightarrow>
             if length firstRow = 0 then Some []
             else
               let pixelHeight = length pixels;
                   pixelWidth = length firstRow;
                   cellWidth = \<lceil>real pixelWidth / real_of_int (fst dims)\<rceil>;
                   cellHeight = \<lceil>real pixelHeight / real_of_int (snd dims)\<rceil>
               in those (map (\<lambda>cy.
                                those (map (cell_at pixels symbolSetName threshold symbols dims cy)
                                         [0..<nat cellWidth]))
                           [0..<nat cellHeight]))"

section \<open>Serializer (renderer.ts)\<close>

datatype colorMode = NONE | TRUECOLOR

record renderOptions =
  opt_symbolSet :: symbolSet
  opt_colorMode :: colorMode
  opt_threshold :: int

definition DEFAULT_OPTIONS :: renderOptions where
  "DEFAULT_OPTIONS = \<lparr>opt_symbolSet = HALF, opt_colorMode = TRUECOLOR, opt_threshold = 128\<rparr>"

text \<open>The decimal digits of a natural number, as a template literal prints it.\<close>

fun dec_string :: "nat \<Rightarrow> jsstring" where
  "dec_string n = (if n < 10 then [48 + n] else dec_string (n div 10) @ [48 + n mod 10])"

text \<open>\<open>ESC [ 3 8 ; 2 ;\<close> and \<open>ESC [ 4 8 ; 2 ;\<close>, then the three clamped channels.\<close>

definition fgTruecolor :: "color \<Rightarrow> jsstring" where
  "fgTruecolor c =
     [27, 91, 51, 56, 59, 50, 59] @ dec_string (nat (clampByte (real_of_int (red c)))) @ [59]
       @ dec_string (nat (clampByte (real_of_int (green c)))) @ [59]
       @ dec_string (nat (clampByte (real_of_int (blue c)))) @ [109]"

definition bgTruecolor :: "color \<Rightarrow> jsstring" where
  "bgTruecolor c =
     [27, 91, 52, 56, 59, 50, 59] @ dec_string (nat (clampByte (real_of_int (red c)))) @ [59]
       @ dec_string (nat (clampByte (real_of_int (green c)))) @ [59]
       @ dec_string (nat (clampByte (real_of_int (blue c)))) @ [109]"

text \<open>\<open>ESC [ 0 m\<close>\<close>

definition resetColors :: jsstring where
  "resetColors = [27, 91, 48, 109]"

text \<open>The body of the loop over the cells of a row; the state is \<open>(line, lastFg, lastBg)\<close>.\<close>

definition cell_step ::
  "colorMode \<Rightarrow> jsstring \<times> color option \<times> color option \<Rightarrow> cell
   \<Rightarrow> jsstring \<times> color option \<times> color option" where
  "cell_step mode st c =
     (case st of (line, lastFg, lastBg) \<Rightarrow>
        if mode = TRUECOLOR
        then
          (let (line1, lastFg1) =
                 (if (case lastFg of None \<Rightarrow> True | Some l \<Rightarrow> \<not> colorsEqual l (cell_fg c))
                  then (line @ fgTruecolor (cell_fg c), Some (cell_fg c))
                  else (line, lastFg));
               (line2, lastBg1) =
                 (if (case lastBg of None \<Rightarrow> True | Some l \<Rightarrow> \<not> colorsEqual l (cell_bg c))
                  then (line1 @ bgTruecolor (cell_bg c), Some (cell_bg c))
                  else (line1, lastBg))
           in (line2 @ cell_char c, lastFg1, lastBg1))
        else (line @ cell_char c, lastFg, lastBg))"

text \<open>One iteration of the loop over the rows: the line of a row.\<close>

definition row_line :: "colorMode \<Rightarrow> cell list \<Rightarrow> jsstring" where
  "row_line mode row =
     (case foldl (cell_step mode) ([], None, None) row of
        (line, lastFg, lastBg) \<Rightarrow> if mode = TRUECOLOR then line @ resetColors else line)"

text \<open>\<open>lines.join(sep)\<close>\<close>

fun js_join :: "jsstring \<Rightarrow> jsstring list \<Rightarrow> jsstring" where
  "js_join sep [] = []"
| "js_join sep [l] = l"
| "js_join sep (l # ls) = l @ sep @ js_join sep ls"

definition gridToString :: "cell list list \<Rightarrow> renderOptions \<Rightarrow> jsstring" where
  "gridToString grid options =
     (if length grid = 0 then []
      else js_join [10] (map (row_line (opt_colorMode options)) grid))"


section \<open>Raster primitives (renderer.ts)\<close>

text \<open>
  The drawing primitives change the buffer in place and return it; the model returns the
  new buffer.  The rows of a buffer are separate arrays.
\<close>

definition setPixel :: "pixelBuffer \<Rightarrow> int \<Rightarrow> int \<Rightarrow> color \<Rightarrow> pixelBuffer" where
  "setPixel buffer x y c =
     (if y \<ge> 0 \<and> y < int (length buffer)
      then (let row = buffer ! nat y
            in if x \<ge> 0 \<and> x < int (length row)
               then buffer[nat y := row[nat x := c]]
               else buffer)
      else buffer)"

definition getPixel :: "pixelBuffer \<Rightarrow> int \<Rightarrow> int \<Rightarrow> color option" where
  "getPixel buffer x y =
     (if y \<ge> 0 \<and> y < int (length buffer)
      then (let row = buffer ! nat y
            in if x \<ge> 0 \<and> x < int (length row) then Some (row ! nat x) else None)
      else None)"

record lineStyle =
  ls_pattern :: "int list option"
  ls_thickness :: "int option"
  ls_startColor :: "color option"
  ls_endColor :: "color option"

definition drawThickPixelPerpendicular ::
  "pixelBuffer \<Rightarrow> int \<Rightarrow> int \<Rightarrow> color \<Rightarrow> int \<Rightarrow> bool \<Rightarrow> pixelBuffer" where
  "drawThickPixelPerpendicular buffer x y c thickness isSteep =
     (if isSteep
      then (let start = x - thickness div 2
            in foldl (\<lambda>b dx. setPixel b (start + int dx) y c) buffer [0..<nat thickness])
      else (let start = y - thickness div 2
            in foldl (\<lambda>b dy. setPixel b x (start + int dy) c) buffer [0..<nat thickness]))"

text \<open>
  \<open>!pattern || pattern[step % pattern.length] === 1\<close>: for the empty array the index is
  \<open>NaN\<close>, the element \<open>undefined\<close>, and nothing is drawn.
\<close>

definition shouldDraw :: "lineStyle option \<Rightarrow> nat \<Rightarrow> bool" where
  "shouldDraw style step =
     (case style of
        None \<Rightarrow> True
      | Some s \<Rightarrow>
          (case ls_pattern s of
             None \<Rightarrow> True
           | Some pattern \<Rightarrow> pattern \<noteq> [] \<and> pattern ! (step mod length pattern) = 1))"

text \<open>The color of a step: the gradient when both of its ends are given.\<close>

definition drawColor :: "lineStyle option \<Rightarrow> color \<Rightarrow> real \<Rightarrow> nat \<Rightarrow> color" where
  "drawColor style c lineLength step =
     (case style of
        None \<Rightarrow> c
      | Some s \<Rightarrow>
          (case (ls_startColor s, ls_endColor s) of
             (Some startColor, Some endColor) \<Rightarrow>
               (let t = (if lineLength > 0 then real step / lineLength else 0)
                in interpolateColor startColor endColor t)
           | _ \<Rightarrow> c))"

text \<open>\<open>style?.thickness ?? 1\<close>\<close>

definition thickness_of :: "lineStyle option \<Rightarrow> int" where
  "thickness_of style =
     (case style of
        None \<Rightarrow> 1
      | Some s \<Rightarrow> (case ls_thickness s of None \<Rightarrow> 1 | Some t \<Rightarrow> t))"

text \<open>The first half of the loop body of \<open>drawLine\<close>: what step \<open>step\<close> draws at \<open>(x, y)\<close>.\<close>

definition draw_step ::
  "lineStyle option \<Rightarrow> color \<Rightarrow> real \<Rightarrow> bool \<Rightarrow> pixelBuffer \<Rightarrow> int \<Rightarrow> int \<Rightarrow> nat \<Rightarrow> pixelBuffer" where
  "draw_step style c lineLength isSteep buffer x y step =
     (if shouldDraw style step
      then (let dc = drawColor style c lineLength step;
                thickness = thickness_of style
            in if thickness > 1
               then drawThickPixelPerpendicular buffer x y dc thickness isSteep
               else setPixel buffer x y dc)
      else buffer)"

text \<open>
  The second half of the loop body: the Bresenham update of \<open>(x, y, err)\<close> for the
  constants \<open>(dx, dy, sx, sy)\<close>.
\<close>

definition bres_next :: "int \<times> int \<times> int \<times> int \<Rightarrow> int \<times> int \<times> int \<Rightarrow> int \<times> int \<times> int" where
  "bres_next k st =
     (case k of (dx, dy, sx, sy) \<Rightarrow>
        case st of (x, y, err) \<Rightarrow>
          let e2 = 2 * err;
              (err1, x1) = (if e2 > - dy then (err - dy, x + sx) else (err, x));
              (err2, y1) = (if e2 < dx then (err1 + dx, y + sy) else (err1, y))
          in (x1, y1, err2))"

text \<open>
  The loop \<open>while (true)\<close> of \<open>drawLine\<close>.  It returns the buffer together with the last
  \<open>x\<close>, \<open>y\<close> and \<open>step\<close>; \<open>None\<close> stands for a loop that never reaches the \<open>break\<close>.
\<close>

partial_function (option) line_loop ::
  "lineStyle option \<Rightarrow> color \<Rightarrow> real \<Rightarrow> bool \<Rightarrow> int \<times> int \<times> int \<times> int \<Rightarrow> int \<Rightarrow> int
   \<Rightarrow> pixelBuffer \<Rightarrow> int \<times> int \<times> int \<Rightarrow> nat \<Rightarrow> (pixelBuffer \<times> int \<times> int \<times> nat) option" where
  "line_loop style c lineLength isSteep k x2 y2 buffer st step =
     (if fst st = x2 \<and> fst (snd st) = y2
      then Some (draw_step style c lineLength isSteep buffer (fst st) (fst (snd st)) step,
                 fst st, fst (snd st), step)
      else line_loop style c lineLength isSteep k x2 y2
             (draw_step style c lineLength isSteep buffer (fst st) (fst (snd st)) step)
             (bres_next k st) (Suc step))"

text \<open>
  A coordinate argument of \<open>drawLine\<close> is an integer or one of the values that
  \<open>Number.isFinite\<close> rejects (\<open>NaN\<close>, \<open>Infinity\<close>, \<open>-Infinity\<close>).
\<close>

datatype coord = Finite int | NonFinite

definition drawLine ::
  "pixelBuffer \<Rightarrow> coord \<Rightarrow> coord \<Rightarrow> coord \<Rightarrow> coord \<Rightarrow> color \<Rightarrow> lineStyle option
   \<Rightarrow> pixelBuffer option" where
  "drawLine buffer cx1 cy1 cx2 cy2 c style =
     (case (cx1, cy1, cx2, cy2) of
        (Finite x1, Finite y1, Finite x2, Finite y2) \<Rightarrow>
          (let dx = \<bar>x2 - x1\<bar>;
               dy = \<bar>y2 - y1\<bar>;
               sx = (if x1 < x2 then 1 else -1);
               sy = (if y1 < y2 then 1 else -1);
               err = dx - dy;
               lineLength = sqrt (real_of_int ((x2 - x1) ^ 2 + (y2 - y1) ^ 2));
               isSteep = (dy > dx)
           in map_option fst
                (line_loop style c lineLength isSteep (dx, dy, sx, sy) x2 y2 buffer (x1, y1, err) 0))
      | _ \<Rightarrow> Some buffer)"

section \<open>Buffer construction (renderer.ts)\<close>










section \<open>Parsing a hex color (colors.ts)\<close>

text \<open>
  \<open>parseInt(str, 16)\<close> of the language: white space is skipped, then a sign, then a prefix
  \<open>0x\<close> or \<open>0X\<close>; the longest run of hex digits that follows is the number, and \<open>NaN\<close>
  (\<open>None\<close>) is returned when that run is empty.  What follows the run is ignored.
\<close>

definition is_js_whitespace :: "nat \<Rightarrow> bool" where
  "is_js_whitespace u =
     (u \<in> {9, 10, 11, 12, 13, 32, 160, 5760, 8232, 8233, 8239, 8287, 12288, 65279}
      \<or> (8192 \<le> u \<and> u \<le> 8202))"

definition hex_digit_value :: "nat \<Rightarrow> nat option" where
  "hex_digit_value u =
     (if 48 \<le> u \<and> u \<le> 57 then Some (u - 48)
      else if 65 \<le> u \<and> u \<le> 70 then Some (u - 55)
      else if 97 \<le> u \<and> u \<le> 102 then Some (u - 87)
      else None)"

definition is_hex_digit :: "nat \<Rightarrow> bool" where
  "is_hex_digit u = (hex_digit_value u \<noteq> None)"

definition hex_digits_number :: "jsstring \<Rightarrow> nat" where
  "hex_digits_number z =
     foldl (\<lambda>acc u. 16 * acc + (case hex_digit_value u of Some v \<Rightarrow> v | None \<Rightarrow> 0)) 0 z"

definition parseInt16 :: "jsstring \<Rightarrow> int option" where
  "parseInt16 str =
     (let s = dropWhile is_js_whitespace str;
          sign = (case s of [] \<Rightarrow> 1 | u # _ \<Rightarrow> if u = 45 then - 1 else (1::int));
          s1 = (case s of [] \<Rightarrow> s | u # rest \<Rightarrow> if u = 43 \<or> u = 45 then rest else s);
          s2 = (case s1 of
                  u # v # rest \<Rightarrow> if u = 48 \<and> (v = 120 \<or> v = 88) then rest else s1
                | _ \<Rightarrow> s1);
          z = takeWhile is_hex_digit s2
      in if z = [] then None else Some (sign * int (hex_digits_number z)))"

text \<open>
  \<open>hex\<close>: \<open>hexStr.replace("#", "")\<close> removes the first \<open>#\<close> (code unit 35) wherever it
  stands.
\<close>

definition hex :: "jsstring \<Rightarrow> color" where
  "hex hexStr =
     (let clean = remove1 35 hexStr
      in if length clean = 3
         then (let c0 = clean ! 0; c1 = clean ! 1; c2 = clean ! 2
               in case (parseInt16 [c0, c0], parseInt16 [c1, c1], parseInt16 [c2, c2]) of
                    (Some rv, Some gv, Some bv) \<Rightarrow>
                      \<lparr>red = rv, green = gv, blue = bv, alpha = Some 255\<rparr>
                  | _ \<Rightarrow> BLACK)
         else if length clean = 6
         then (case (parseInt16 (take 2 clean), parseInt16 (take 2 (drop 2 clean)),
                     parseInt16 (take 2 (drop 4 clean))) of
                 (Some rv, Some gv, Some bv) \<Rightarrow>
                   \<lparr>red = rv, green = gv, blue = bv, alpha = Some 255\<rparr>
               | _ \<Rightarrow> BLACK)
         else BLACK)"

section \<open>Notions of the specification\<close>

text \<open>
  The data model of the specification: every channel of a color is an integer from 0 to
  255 (a missing alpha counts as 255).
\<close>

definition byte_channels :: "color \<Rightarrow> bool" where
  "byte_channels c =
     (0 \<le> red c \<and> red c \<le> 255 \<and> 0 \<le> green c \<and> green c \<le> 255
      \<and> 0 \<le> blue c \<and> blue c \<le> 255 \<and> 0 \<le> alpha_or_255 c \<and> alpha_or_255 c \<le> 255)"

text \<open>
  The two forms \<open>#RGB\<close> and \<open>#RRGGBB\<close> of the specification: a \<open>#\<close> followed by three or by
  six hex digits.
\<close>

definition hash_form :: "jsstring \<Rightarrow> bool" where
  "hash_form s =
     (case s of
        [] \<Rightarrow> False
      | u # ds \<Rightarrow> u = 35 \<and> (length ds = 3 \<or> length ds = 6) \<and> list_all is_hex_digit ds)"

text \<open>The number a hex digit stands for.\<close>

definition hex_value :: "nat \<Rightarrow> int" where
  "hex_value u = (case hex_digit_value u of Some v \<Rightarrow> int v | None \<Rightarrow> 0)"






text \<open>
  The pixels of a region in row-major order, as the specification scans them: pixel \<open>i\<close>
  of a region of width \<open>w\<close> is at column \<open>i mod w\<close> of row \<open>i div w\<close>.
\<close>

definition region_pixels :: "pixelBuffer \<Rightarrow> int \<Rightarrow> int \<Rightarrow> int \<Rightarrow> int \<Rightarrow> color list" where
  "region_pixels pixels startX startY width height =
     concat (map (\<lambda>y. map (\<lambda>x. getPixelSafe pixels (startX + int x) (startY + int y))
                           [0..<nat width])
               [0..<nat height])"

text \<open>
  The steps of a line.  \<open>line_consts\<close> are the constants \<open>(dx, dy, sx, sy)\<close> that \<open>drawLine\<close>
  computes, \<open>line_start\<close> is the state \<open>(x, y, err)\<close> before the loop, \<open>line_point j\<close> is the
  pixel \<open>(x, y)\<close> at which the loop stands in its step \<open>j\<close> (the first step is step 0),
  \<open>line_last\<close> is \<open>max(|x2 - x1|, |y2 - y1|)\<close>, and \<open>line_length\<close> and \<open>line_steep\<close> are the
  values \<open>lineLength\<close> and \<open>isSteep\<close> of \<open>drawLine\<close>.
\<close>

definition line_consts :: "int \<Rightarrow> int \<Rightarrow> int \<Rightarrow> int \<Rightarrow> int \<times> int \<times> int \<times> int" where
  "line_consts x1 y1 x2 y2 =
     (\<bar>x2 - x1\<bar>, \<bar>y2 - y1\<bar>, (if x1 < x2 then 1 else - 1), (if y1 < y2 then 1 else - 1))"

definition line_start :: "int \<Rightarrow> int \<Rightarrow> int \<Rightarrow> int \<Rightarrow> int \<times> int \<times> int" where
  "line_start x1 y1 x2 y2 = (x1, y1, \<bar>x2 - x1\<bar> - \<bar>y2 - y1\<bar>)"

definition line_point :: "int \<Rightarrow> int \<Rightarrow> int \<Rightarrow> int \<Rightarrow> nat \<Rightarrow> int \<times> int" where
  "line_point x1 y1 x2 y2 j =
     (case (bres_next (line_consts x1 y1 x2 y2) ^^ j) (line_start x1 y1 x2 y2) of
        (x, y, err) \<Rightarrow> (x, y))"

definition line_last :: "int \<Rightarrow> int \<Rightarrow> int \<Rightarrow> int \<Rightarrow> nat" where
  "line_last x1 y1 x2 y2 = nat (max \<bar>x2 - x1\<bar> \<bar>y2 - y1\<bar>)"

definition line_length :: "int \<Rightarrow> int \<Rightarrow> int \<Rightarrow> int \<Rightarrow> real" where
  "line_length x1 y1 x2 y2 = sqrt (real_of_int ((x2 - x1) ^ 2 + (y2 - y1) ^ 2))"

definition line_steep :: "int \<Rightarrow> int \<Rightarrow> int \<Rightarrow> int \<Rightarrow> bool" where
  "line_steep x1 y1 x2 y2 = (\<bar>y2 - y1\<bar> > \<bar>x2 - x1\<bar>)"

declare countBits_loop.simps [code]

declare line_loop.simps [code]

section \<open>Bitwise operators on small numbers\<close>

lemma sint_word_of_int_small:
  "- (2 ^ 31) \<le> k \<Longrightarrow> k < 2 ^ 31 \<Longrightarrow> sint (word_of_int k :: 32 word) = k"
  by (simp add: sint_sbintrunc' signed_take_bit_int_eq_self)

lemma js_or_small:
  assumes "0 \<le> m" "m < 2 ^ n" "0 \<le> k" "k < 2 ^ n" "n \<le> 31"
  shows "js_or m k = m OR k" and "0 \<le> js_or m k" and "js_or m k < 2 ^ n"
proof -
  have b: "0 \<le> m OR k" "m OR k < 2 ^ n"
    using assms by (simp_all add: OR_upper)
  have "(2::int) ^ n \<le> 2 ^ 31" using assms(5) by (intro power_increasing) simp_all
  with b have "- (2 ^ 31) \<le> m OR k" "m OR k < 2 ^ 31" by linarith+
  then have "sint (word_of_int (m OR k) :: 32 word) = m OR k"
    by (rule sint_word_of_int_small)
  then show "js_or m k = m OR k" by (simp add: js_or_def of_int_or_eq)
  with b show "0 \<le> js_or m k" "js_or m k < 2 ^ n" by simp_all
qed

lemma js_and_255:
  assumes "0 \<le> p" "p < 256"
  shows "js_and p 255 = p"
proof -
  have m: "(255::int) = mask 8" by (simp add: mask_eq_exp_minus_1)
  have "p AND 255 = take_bit 8 p"
    unfolding m by (simp add: take_bit_eq_mask)
  also have "\<dots> = p" using assms by (simp add: take_bit_int_eq_self)
  finally have "(word_of_int p :: 32 word) AND 255 = word_of_int p"
    by (metis of_int_and_eq of_int_numeral)
  then show ?thesis
    unfolding js_and_def using assms by (simp add: sint_word_of_int_small)
qed

section \<open>The braille table and the closed form\<close>

lemma find_append_case:
  "find P (xs @ ys) = (case find P xs of None \<Rightarrow> find P ys | Some x \<Rightarrow> Some x)"
  by (induction xs) auto

lemma find_map_upt:
  assumes "\<And>i. key (mk i) = int i" and "k < n"
  shows "find (\<lambda>s. key s = int k) (map mk [0..<n]) = Some (mk k)"
  using assms(2)
proof (induction n)
  case 0
  then show ?case by simp
next
  case (Suc n)
  show ?case
  proof (cases "k < n")
    case True
    with Suc.IH show ?thesis by (simp add: find_append_case)
  next
    case False
    with Suc.prems have "k = n" by simp
    moreover have "find (\<lambda>s. key s = int n) (map mk [0..<n]) = None"
      by (auto simp: find_None_iff assms(1))
    ultimately show ?thesis by (simp add: find_append_case assms(1))
  qed
qed

lemma findBestSymbol_braille:
  assumes "0 \<le> p" "p < 256"
  shows "findBestSymbol p BRAILLE_SYMBOLS = Some (mk_symbol (getBrailleChar p) p 2 4)"
proof -
  have "find (\<lambda>s. sym_pattern s = int (nat p))
          (map (\<lambda>n. mk_symbol (getBrailleChar (int n)) (int n) 2 4) [0..<256])
        = Some (mk_symbol (getBrailleChar (int (nat p))) (int (nat p)) 2 4)"
    by (rule find_map_upt) (use assms in \<open>simp_all add: mk_symbol_def\<close>)
  then show ?thesis
    using assms by (simp add: findBestSymbol_def BRAILLE_SYMBOLS_def generateBrailleSymbols_def)
qed

lemma braille_dot_range:
  assumes "0 \<le> fst st" "fst st < 256" "d \<in> set BRAILLE_DOT_MAP"
  shows "0 \<le> fst (braille_dot pixels sx sy t st d)
         \<and> fst (braille_dot pixels sx sy t st d) < 256"
proof -
  obtain pat fgs bgs where st: "st = (pat, fgs, bgs)" by (cases st) auto
  obtain dx dy dbit where d: "d = (dx, dy, dbit)" by (cases d) auto
  have "0 \<le> dbit \<and> dbit < 2 ^ 8"
    using assms(3) unfolding d BRAILLE_DOT_MAP_def
    by (auto simp: DOT1_def DOT2_def DOT3_def DOT4_def DOT5_def DOT6_def DOT7_def DOT8_def)
  moreover have "0 \<le> pat \<and> pat < 2 ^ 8" using assms(1,2) st by simp
  ultimately have "0 \<le> js_or pat dbit \<and> js_or pat dbit < 2 ^ 8"
    using js_or_small(2,3)[of pat 8 dbit] by simp
  then show ?thesis using assms(1,2) by (simp add: braille_dot_def st d Let_def)
qed

lemma braille_fold_range:
  assumes "0 \<le> fst st" "fst st < 256" "set ds \<subseteq> set BRAILLE_DOT_MAP"
  shows "0 \<le> fst (foldl (braille_dot pixels sx sy t) st ds)
         \<and> fst (foldl (braille_dot pixels sx sy t) st ds) < 256"
  using assms
proof (induction ds arbitrary: st)
  case Nil
  then show ?case by simp
next
  case (Cons d ds)
  have "0 \<le> fst (braille_dot pixels sx sy t st d)
        \<and> fst (braille_dot pixels sx sy t st d) < 256"
    using Cons.prems by (intro braille_dot_range) auto
  then show ?case using Cons.IH[of "braille_dot pixels sx sy t st d"] Cons.prems by simp
qed

lemma mapBrailleRegion_range:
  "0 \<le> res_pattern (mapBrailleRegion pixels sx sy t)
   \<and> res_pattern (mapBrailleRegion pixels sx sy t) < 256"
proof -
  have "0 \<le> fst (foldl (braille_dot pixels sx sy t) (0, [], []) BRAILLE_DOT_MAP)
         \<and> fst (foldl (braille_dot pixels sx sy t) (0, [], []) BRAILLE_DOT_MAP) < 256"
    by (rule braille_fold_range) simp_all
  then show ?thesis
    by (auto simp add: mapBrailleRegion_def split: prod.splits)
qed

text \<open>
  Claim C1.  For every pattern \<open>p\<close> from 0 to 255 the search of \<open>findBestSymbol\<close> in
  \<open>BRAILLE_SYMBOLS\<close> returns, and the glyph of the symbol it returns is the string
  \<open>getBrailleChar p\<close>, which is the single code unit \<open>0x2800 + p\<close>.  Every pattern that
  \<open>mapBrailleRegion\<close> produces lies in that range, so the glyph that \<open>mapPixelsToCells\<close>
  computes directly for a braille cell is the one the search would find.
\<close>

theorem braille_search_equals_closed_form:
  assumes "0 \<le> p" and "p < 256"
  shows "map_option sym_char (findBestSymbol p BRAILLE_SYMBOLS) = Some (getBrailleChar p)
         \<and> getBrailleChar p = [nat (10240 + p)]
         \<and> map_option sym_char
              (findBestSymbol (res_pattern (mapBrailleRegion pixels sx sy t)) BRAILLE_SYMBOLS)
            = Some (getBrailleChar (res_pattern (mapBrailleRegion pixels sx sy t)))"
  using assms mapBrailleRegion_range[of pixels sx sy t]
  by (simp add: findBestSymbol_braille mk_symbol_def getBrailleChar_def js_and_255
      BRAILLE_BASE_def)

theorem braille_search_equals_closed_form_witness:
  "map_option sym_char (findBestSymbol 5 BRAILLE_SYMBOLS) = Some (getBrailleChar 5)
   \<and> getBrailleChar 5 = [10245]"
proof -
  have "(0::int) \<le> 5" and "(5::int) < 256" by simp_all
  from braille_search_equals_closed_form[OF this, of "[]" 0 0 0]
  have "map_option sym_char (findBestSymbol 5 BRAILLE_SYMBOLS) = Some (getBrailleChar 5)"
    and "getBrailleChar 5 = [nat (10240 + 5)]" by blast+
  then show ?thesis by simp
qed

section \<open>Blending\<close>

lemma math_round_of_int: "math_round (real_of_int n) = n"
  unfolding math_round_def by linarith

lemma clampByte_of_int: "0 \<le> n \<Longrightarrow> n \<le> 255 \<Longrightarrow> clampByte (real_of_int n) = n"
  by (simp add: clampByte_def math_round_of_int)

lemma blend_opaque_fg:
  assumes "alpha_or_255 fg = 255" "byte_channels fg"
  shows "red (blendColors fg bg) = red fg \<and> green (blendColors fg bg) = green fg
         \<and> blue (blendColors fg bg) = blue fg"
  using assms by (simp_all add: blendColors_def Let_def byte_channels_def clampByte_of_int)

lemma blend_clear_fg:
  assumes "alpha_or_255 fg = 0" "byte_channels bg" "alpha_or_255 bg \<noteq> 0"
  shows "blendColors fg bg = bg\<lparr>alpha := Some (alpha_or_255 bg)\<rparr>"
  using assms by (simp add: blendColors_def Let_def byte_channels_def clampByte_of_int)

lemma blend_clear_both:
  assumes "alpha_or_255 fg = 0" "alpha_or_255 bg = 0"
  shows "blendColors fg bg = TRANSPARENT"
  using assms by (simp add: blendColors_def Let_def)

text \<open>
  Claim C9, as amended.  For colors whose channels are bytes: a foreground of alpha 255
  (or without alpha) gives its own red, green and blue to the blend; a foreground of alpha
  0 over a background whose alpha is not 0 gives the background, its alpha written out;
  and a foreground of alpha 0 over a background of alpha 0 gives transparent black, which
  is the guard of the source against the division by zero.
\<close>

theorem blendColors_opaque_and_clear_foreground:
  "(alpha_or_255 fg = 255 \<and> byte_channels fg \<longrightarrow>
      red (blendColors fg bg) = red fg \<and> green (blendColors fg bg) = green fg
      \<and> blue (blendColors fg bg) = blue fg)
   \<and> (alpha_or_255 fg = 0 \<and> byte_channels bg \<and> alpha_or_255 bg \<noteq> 0 \<longrightarrow>
      blendColors fg bg = bg\<lparr>alpha := Some (alpha_or_255 bg)\<rparr>)
   \<and> (alpha_or_255 fg = 0 \<and> alpha_or_255 bg = 0 \<longrightarrow> blendColors fg bg = TRANSPARENT)"
  using blend_opaque_fg[of fg bg] blend_clear_fg[of fg bg] blend_clear_both[of fg bg]
  by blast

theorem blendColors_opaque_and_clear_foreground_witness:
  "red (blendColors \<lparr>red = 1, green = 2, blue = 3, alpha = None\<rparr>
          \<lparr>red = 10, green = 20, blue = 30, alpha = Some 7\<rparr>) = 1
   \<and> blendColors \<lparr>red = 1, green = 2, blue = 3, alpha = Some 0\<rparr>
        \<lparr>red = 10, green = 20, blue = 30, alpha = Some 7\<rparr>
      = \<lparr>red = 10, green = 20, blue = 30, alpha = Some 7\<rparr>
   \<and> blendColors \<lparr>red = 1, green = 2, blue = 3, alpha = Some 0\<rparr>
        \<lparr>red = 10, green = 20, blue = 30, alpha = Some 0\<rparr>
      = TRANSPARENT"
  using
    blendColors_opaque_and_clear_foreground[of
      "\<lparr>red = 1, green = 2, blue = 3, alpha = None\<rparr>"
      "\<lparr>red = 10, green = 20, blue = 30, alpha = Some 7\<rparr>"]
    blendColors_opaque_and_clear_foreground[of
      "\<lparr>red = 1, green = 2, blue = 3, alpha = Some 0\<rparr>"
      "\<lparr>red = 10, green = 20, blue = 30, alpha = Some 7\<rparr>"]
    blendColors_opaque_and_clear_foreground[of
      "\<lparr>red = 1, green = 2, blue = 3, alpha = Some 0\<rparr>"
      "\<lparr>red = 10, green = 20, blue = 30, alpha = Some 0\<rparr>"]
  by (simp add: alpha_or_255_def byte_channels_def)

text \<open>
  The claim as it was stated fails: over a background of alpha 0 a foreground of alpha 0
  does not give the background back.
\<close>

theorem blendColors_clear_over_clear_counterexample:
  "alpha \<lparr>red = 1, green = 2, blue = 3, alpha = Some 0\<rparr> = Some 0
   \<and> blendColors \<lparr>red = 1, green = 2, blue = 3, alpha = Some 0\<rparr>
        \<lparr>red = 10, green = 20, blue = 30, alpha = Some 0\<rparr>
      \<noteq> \<lparr>red = 10, green = 20, blue = 30, alpha = Some 0\<rparr>"
  by (simp add: blendColors_def Let_def alpha_or_255_def TRANSPARENT_def)

section \<open>Hex colors\<close>

lemma hex_digit_not_ws: "is_hex_digit u \<Longrightarrow> \<not> is_js_whitespace u"
  by (auto simp: is_hex_digit_def hex_digit_value_def is_js_whitespace_def split: if_splits)

lemma hex_digit_not_special:
  "is_hex_digit u \<Longrightarrow> u \<noteq> 43 \<and> u \<noteq> 45 \<and> u \<noteq> 120 \<and> u \<noteq> 88"
  by (auto simp: is_hex_digit_def hex_digit_value_def split: if_splits)

lemma parseInt16_doubled_non_hex:
  assumes "\<not> is_hex_digit u"
  shows "parseInt16 [u, u] = None"
proof -
  have "u \<noteq> 48" using assms by (auto simp: is_hex_digit_def hex_digit_value_def)
  then show ?thesis using assms
    by (simp add: parseInt16_def Let_def)
qed

lemma parseInt16_pair_hex:
  assumes "is_hex_digit u" "is_hex_digit v"
  shows "parseInt16 [u, v] = Some (16 * hex_value u + hex_value v)"
  using assms hex_digit_not_ws[OF assms(1)] hex_digit_not_special[OF assms(1)]
    hex_digit_not_special[OF assms(2)]
  by (auto simp add: parseInt16_def Let_def hex_digits_number_def hex_value_def is_hex_digit_def)

lemma hex_other_length:
  assumes "length (remove1 35 s) \<noteq> 3" "length (remove1 35 s) \<noteq> 6"
  shows "hex s = BLACK"
  using assms by (simp add: hex_def Let_def)

lemma hex_three:
  assumes "remove1 35 s = [a, b, c]"
  shows "hex s =
           (case parseInt16 [a, a] of
              None \<Rightarrow> BLACK
            | Some rv \<Rightarrow>
                (case parseInt16 [b, b] of
                   None \<Rightarrow> BLACK
                 | Some gv \<Rightarrow>
                     (case parseInt16 [c, c] of
                        None \<Rightarrow> BLACK
                      | Some bv \<Rightarrow> \<lparr>red = rv, green = gv, blue = bv, alpha = Some 255\<rparr>)))"
  using assms by (simp add: hex_def Let_def split: option.split)

lemma hex_six:
  assumes "remove1 35 s = [a, b, c, d, e, f]"
  shows "hex s =
           (case parseInt16 [a, b] of
              None \<Rightarrow> BLACK
            | Some rv \<Rightarrow>
                (case parseInt16 [c, d] of
                   None \<Rightarrow> BLACK
                 | Some gv \<Rightarrow>
                     (case parseInt16 [e, f] of
                        None \<Rightarrow> BLACK
                      | Some bv \<Rightarrow> \<lparr>red = rv, green = gv, blue = bv, alpha = Some 255\<rparr>)))"
  using assms by (simp add: hex_def Let_def split: option.split)

lemma length3_cases: "length xs = 3 \<Longrightarrow> \<exists>a b c. xs = [a, b, c]"
  by (cases xs; cases "tl xs"; cases "tl (tl xs)") auto

lemma case3_black:
  assumes "pa = None \<or> pb = None \<or> pc = None"
  shows "(case pa of
            None \<Rightarrow> BLACK
          | Some rv \<Rightarrow>
              (case pb of
                 None \<Rightarrow> BLACK
               | Some gv \<Rightarrow>
                   (case pc of
                      None \<Rightarrow> BLACK
                    | Some bv \<Rightarrow> \<lparr>red = rv, green = gv, blue = bv, alpha = Some 255\<rparr>)))
         = BLACK"
  using assms by (auto split: option.split)

lemma hex_three_non_hex:
  assumes "length (remove1 35 s) = 3" "\<not> list_all is_hex_digit (remove1 35 s)"
  shows "hex s = BLACK"
proof -
  obtain a b c where abc: "remove1 35 s = [a, b, c]"
    using length3_cases[OF assms(1)] by blast
  from assms(2) have "\<not> is_hex_digit a \<or> \<not> is_hex_digit b \<or> \<not> is_hex_digit c"
    unfolding abc by simp
  then have "parseInt16 [a, a] = None \<or> parseInt16 [b, b] = None \<or> parseInt16 [c, c] = None"
    by (auto simp: parseInt16_doubled_non_hex)
  then show ?thesis
    unfolding hex_three[OF abc] by (rule case3_black)
qed

lemma hex_three_digits:
  assumes "remove1 35 s = [a, b, c]" "is_hex_digit a" "is_hex_digit b" "is_hex_digit c"
  shows "hex s = \<lparr>red = 17 * hex_value a, green = 17 * hex_value b, blue = 17 * hex_value c,
                  alpha = Some 255\<rparr>"
  unfolding hex_three[OF assms(1)] using assms(2-) by (simp add: parseInt16_pair_hex)

lemma hex_six_digits:
  assumes "remove1 35 s = [a, b, c, d, e, f]" 
    "is_hex_digit a" "is_hex_digit b" "is_hex_digit c"
    "is_hex_digit d" "is_hex_digit e" "is_hex_digit f"
  shows "hex s = \<lparr>red = 16 * hex_value a + hex_value b, green = 16 * hex_value c + hex_value d,
                  blue = 16 * hex_value e + hex_value f, alpha = Some 255\<rparr>"
  unfolding hex_six[OF assms(1)] using assms(2-) by (simp add: parseInt16_pair_hex)

lemma hex_examples:
  "hex [35, 65, 66, 67] = hex [35, 65, 65, 66, 66, 67, 67]"
  "hex [35, 70, 70, 70, 70, 70, 70] = rgb 255 255 255 (Some 255)"
  "hex [110, 111, 116, 45, 104, 101, 120] = BLACK"
  "hex [35, 49, 50] = BLACK"
  by (simp_all add: hex_def Let_def parseInt16_def is_js_whitespace_def is_hex_digit_def
       hex_digit_value_def hex_digits_number_def rgb_def clampByte_def math_round_def BLACK_def)

lemma hex_lenient: 
  "hex [35, 49, 71, 50, 71, 51, 71] = \<lparr>red = 1, green = 2, blue = 3, alpha = Some 255\<rparr>"
  "hex [65, 66, 67] = \<lparr>red = 170, green = 187, blue = 204, alpha = Some 255\<rparr>"
  "\<not> hash_form [65, 66, 67]" "\<not> is_hex_digit 71"
  by (simp_all add: hex_def Let_def parseInt16_def is_js_whitespace_def is_hex_digit_def
       hex_digit_value_def hex_digits_number_def hash_form_def)

text \<open>
  Claim C8, as amended.  \<open>hex\<close> is a total function into the colors: it raises nothing.
  Let \<open>clean\<close> be the input without its first \<open>#\<close>.  When \<open>clean\<close> has neither three
  nor six code units the result is opaque black; so it is when \<open>clean\<close> has three code units
  and one of them is not a hex digit.  Three hex digits give the color of the doubled
  digits, six hex digits the color of the three pairs.  In particular \<open>hex("#ABC")\<close> is
  \<open>hex("#AABBCC")\<close>, \<open>hex("#FFFFFF")\<close> is \<open>rgb(255, 255, 255, 255)\<close>, and \<open>hex("not-hex")\<close>
  and \<open>hex("#12")\<close> are opaque black.
\<close>

theorem hex_black_on_wrong_length_or_digit:
  "(length (remove1 35 s) \<noteq> 3 \<and> length (remove1 35 s) \<noteq> 6 \<longrightarrow> hex s = BLACK)
   \<and> (length (remove1 35 s) = 3 \<and> \<not> list_all is_hex_digit (remove1 35 s) \<longrightarrow> hex s = BLACK)
   \<and> (remove1 35 s = [a, b, c] \<and> list_all is_hex_digit [a, b, c] \<longrightarrow>
        hex s = \<lparr>red = 17 * hex_value a, green = 17 * hex_value b, blue = 17 * hex_value c,
                 alpha = Some 255\<rparr>)
   \<and> (remove1 35 s = [a, b, c, d, e, f] \<and> list_all is_hex_digit [a, b, c, d, e, f] \<longrightarrow>
        hex s = \<lparr>red = 16 * hex_value a + hex_value b, green = 16 * hex_value c + hex_value d,
                 blue = 16 * hex_value e + hex_value f, alpha = Some 255\<rparr>)
   \<and> hex [35, 65, 66, 67] = hex [35, 65, 65, 66, 66, 67, 67]
   \<and> hex [35, 70, 70, 70, 70, 70, 70] = rgb 255 255 255 (Some 255)
   \<and> hex [110, 111, 116, 45, 104, 101, 120] = BLACK
   \<and> hex [35, 49, 50] = BLACK"
proof (intro conjI impI)
  assume "length (remove1 35 s) \<noteq> 3 \<and> length (remove1 35 s) \<noteq> 6"
  then show "hex s = BLACK" using hex_other_length by blast
next
  assume "length (remove1 35 s) = 3 \<and> \<not> list_all is_hex_digit (remove1 35 s)"
  then show "hex s = BLACK" using hex_three_non_hex by blast
next
  assume "remove1 35 s = [a, b, c] \<and> list_all is_hex_digit [a, b, c]"
  then have "remove1 35 s = [a, b, c]" "is_hex_digit a" "is_hex_digit b" "is_hex_digit c"
    by simp_all
  then show "hex s = \<lparr>red = 17 * hex_value a, green = 17 * hex_value b,
                         blue = 17 * hex_value c, alpha = Some 255\<rparr>"
    by (rule hex_three_digits)
next
  assume "remove1 35 s = [a, b, c, d, e, f] \<and> list_all is_hex_digit [a, b, c, d, e, f]"
  then have "remove1 35 s = [a, b, c, d, e, f]" "is_hex_digit a" "is_hex_digit b"
    "is_hex_digit c" "is_hex_digit d" "is_hex_digit e" "is_hex_digit f"
    by simp_all
  then show "hex s = \<lparr>red = 16 * hex_value a + hex_value b,
                         green = 16 * hex_value c + hex_value d,
                         blue = 16 * hex_value e + hex_value f, alpha = Some 255\<rparr>"
    by (rule hex_six_digits)
qed (rule hex_examples)+

theorem hex_black_on_wrong_length_or_digit_witness:
  "hex [35, 49, 50, 51, 52] = BLACK
   \<and> hex [35, 49, 71, 51] = BLACK
   \<and> hex [35, 49, 50, 51] = \<lparr>red = 17, green = 34, blue = 51, alpha = Some 255\<rparr>
   \<and> hex [35, 49, 48, 50, 48, 51, 48] = \<lparr>red = 16, green = 32, blue = 48, alpha = Some 255\<rparr>"
proof -
  have "hex [35, 49, 50, 51, 52] = BLACK"
    using hex_black_on_wrong_length_or_digit[of "[35, 49, 50, 51, 52]" 0 0 0 0 0 0] by simp
  moreover have "hex [35, 49, 71, 51] = BLACK"
    using hex_black_on_wrong_length_or_digit[of "[35, 49, 71, 51]" 0 0 0 0 0 0]
    by (simp add: is_hex_digit_def hex_digit_value_def)
  moreover have "hex [35, 49, 50, 51] = \<lparr>red = 17, green = 34, blue = 51, alpha = Some 255\<rparr>"
    using hex_black_on_wrong_length_or_digit[of "[35, 49, 50, 51]" 49 50 51 0 0 0]
    by (simp add: is_hex_digit_def hex_digit_value_def hex_value_def)
  moreover have "hex [35, 49, 48, 50, 48, 51, 48]
                 = \<lparr>red = 16, green = 32, blue = 48, alpha = Some 255\<rparr>"
    using hex_black_on_wrong_length_or_digit[of "[35, 49, 48, 50, 48, 51, 48]" 49 48 50 48 51 48]
    by (simp add: is_hex_digit_def hex_digit_value_def hex_value_def)
  ultimately show ?thesis by blast
qed

text \<open>
  The claim as it was stated fails.  \<open>"ABC"\<close> is not of the form \<open>#RGB\<close>, and the source,
  which removes a \<open>#\<close> only where there is one, gives it the color of \<open>"#ABC"\<close>.  In
  \<open>"#1G2G3G"\<close> the code unit \<open>G\<close> is not a hex digit, and \<open>parseInt\<close> reads each pair up to
  it.
\<close>

theorem hex_accepts_malformed_counterexample:
  "\<not> hash_form [65, 66, 67] \<and> hex [65, 66, 67] \<noteq> BLACK
   \<and> \<not> is_hex_digit 71 \<and> hex [35, 49, 71, 50, 71, 51, 71] \<noteq> BLACK"
  using hex_lenient by (simp add: BLACK_def)

section \<open>Buffer construction\<close>













section \<open>Region mapping\<close>

lemma scan_row:
  "foldl (\<lambda>st x. scan_pixel pixels sx sy t y (int x) st) (bits, fgs, bgs) xs
   = (bits @ map (\<lambda>x. isPixelOn (getPixelSafe pixels (sx + int x) (sy + y)) t) xs,
      fgs @ filter (\<lambda>c. isPixelOn c t) (map (\<lambda>x. getPixelSafe pixels (sx + int x) (sy + y)) xs),
      bgs @ filter (\<lambda>c. \<not> isPixelOn c t)
              (map (\<lambda>x. getPixelSafe pixels (sx + int x) (sy + y)) xs))"
  by (induction xs arbitrary: bits fgs bgs) (simp_all add: scan_pixel_def Let_def)

lemma scan_rows:
  "foldl (\<lambda>st y. foldl (\<lambda>st x. scan_pixel pixels sx sy t (int y) (int x) st) st xs)
     (bits, fgs, bgs) ys
   = (let cs = concat (map (\<lambda>y. map (\<lambda>x. getPixelSafe pixels (sx + int x) (sy + int y)) xs) ys)
      in (bits @ map (\<lambda>c. isPixelOn c t) cs,
          fgs @ filter (\<lambda>c. isPixelOn c t) cs,
          bgs @ filter (\<lambda>c. \<not> isPixelOn c t) cs))"
proof (induction ys arbitrary: bits fgs bgs)
  case Nil
  then show ?case by simp
next
  case (Cons y ys)
  show ?case
    by (simp add: scan_row Cons.IH Let_def comp_def)
qed

lemma scan_region_eq:
  "scan_region pixels sx sy w h t
   = (map (\<lambda>c. isPixelOn c t) (region_pixels pixels sx sy w h),
      filter (\<lambda>c. isPixelOn c t) (region_pixels pixels sx sy w h),
      filter (\<lambda>c. \<not> isPixelOn c t) (region_pixels pixels sx sy w h))"
  using scan_rows[of pixels sx sy t "[0..<nat w]" "[]" "[]" "[]" "[0..<nat h]"]
  by (simp add: scan_region_def region_pixels_def Let_def)

lemma concat_rows_length:
  "length (concat (map (\<lambda>y. map (g y) [0..<w]) [0..<h])) = h * w"
  by (induction h) simp_all

lemma concat_rows_nth:
  assumes "i < h * w"
  shows "concat (map (\<lambda>y. map (g y) [0..<w]) [0..<h]) ! i = g (i div w) (i mod w)"
  using assms
proof (induction h)
  case 0
  then show ?case by simp
next
  case (Suc h)
  have w: "0 < w" using Suc.prems by (cases w) auto
  show ?case
  proof (cases "i < h * w")
    case True
    with Suc.IH show ?thesis by (simp add: nth_append concat_rows_length)
  next
    case False
    then have ge: "h * w \<le> i" by simp
    have lt: "i - h * w < w" using Suc.prems ge by simp
    have d: "i div w = h"
      using ge Suc.prems w by (metis div_nat_eqI mult.commute)
    have "i mod w = i - h * w"
      using d by (metis minus_div_mult_eq_mod)
    with False lt d show ?thesis by (simp add: nth_append concat_rows_length)
  qed
qed

lemma region_pixels_length:
  "length (region_pixels pixels sx sy w h) = nat h * nat w"
  by (simp add: region_pixels_def concat_rows_length)

lemma region_pixels_nth:
  assumes "i < nat h * nat w"
  shows "region_pixels pixels sx sy w h ! i
         = getPixelSafe pixels (sx + int (i mod nat w)) (sy + int (i div nat w))"
  unfolding region_pixels_def
  using concat_rows_nth[OF assms, of "\<lambda>y x. getPixelSafe pixels (sx + int x) (sy + int y)"]
  by simp

lemma getPixelSafe_outside:
  assumes "\<not> (0 \<le> y \<and> y < int (length pixels) \<and> 0 \<le> x \<and> x < int (length (pixels ! nat y)))"
  shows "getPixelSafe pixels x y = BLACK"
  using assms by (auto simp: getPixelSafe_def Let_def)

subsection \<open>The bit pattern\<close>

lemma word_of_int_sint32: "word_of_int (sint (v :: 32 word)) = v"
  by simp

lemma bits_step_word:
  "js_or (sint (v :: 32 word)) (js_shl 1 (int k)) = sint (v OR push_bit (k mod 32) 1)"
proof -
  have "nat (int k mod 32) = k mod 32" by (simp add: nat_mod_distrib)
  then show ?thesis by (simp add: js_or_def js_shl_def)
qed

lemma bits_fold_word:
  "\<exists>v :: 32 word.
     foldl (\<lambda>bitPattern i. if bs ! i then js_or bitPattern (js_shl 1 (int i)) else bitPattern)
       0 [0..<k] = sint v
     \<and> (\<forall>j < 32. bit v j \<longleftrightarrow> (\<exists>i < k. i mod 32 = j \<and> bs ! i))"
proof (induction k)
  case 0
  have "(0::int) = sint (0 :: 32 word)" by simp
  then show ?case by (intro exI[of _ "0 :: 32 word"]) simp
next
  case (Suc k)
  then obtain v :: "32 word" where
    v: "foldl (\<lambda>bitPattern i. if bs ! i then js_or bitPattern (js_shl 1 (int i)) else bitPattern)
          0 [0..<k] = sint v"
    and b: "\<forall>j < 32. bit v j \<longleftrightarrow> (\<exists>i < k. i mod 32 = j \<and> bs ! i)"
    by blast
  show ?case
  proof (cases "bs ! k")
    case False
    have "\<forall>j < 32. bit v j \<longleftrightarrow> (\<exists>i < Suc k. i mod 32 = j \<and> bs ! i)"
      using b False by (metis less_Suc_eq)
    with v False show ?thesis by (intro exI[of _ v]) simp
  next
    case True
    let ?u = "v OR push_bit (k mod 32) 1"
    have "\<forall>j < 32. bit ?u j \<longleftrightarrow> (\<exists>i < Suc k. i mod 32 = j \<and> bs ! i)"
    proof (intro allI impI)
      fix j :: nat assume j: "j < 32"
      have "bit ?u j \<longleftrightarrow> bit v j \<or> j = k mod 32"
        using j by (auto simp: bit_or_iff bit_exp_iff possible_bit_word)
      also have "\<dots> \<longleftrightarrow> (\<exists>i < Suc k. i mod 32 = j \<and> bs ! i)"
        using b j True by (metis less_Suc_eq)
      finally show "bit ?u j \<longleftrightarrow> (\<exists>i < Suc k. i mod 32 = j \<and> bs ! i)" .
    qed
    moreover have "foldl (\<lambda>bitPattern i. if bs ! i then js_or bitPattern (js_shl 1 (int i))
                                        else bitPattern) 0 [0..<Suc k] = sint ?u"
      using v True by (simp add: bits_step_word)
    ultimately show ?thesis by blast
  qed
qed

lemma bits_to_pattern_bit:
  assumes "length bs \<le> 32" "i < length bs"
  shows "bit (bits_to_pattern bs) i \<longleftrightarrow> bs ! i"
proof -
  obtain v :: "32 word" where v: "bits_to_pattern bs = sint v"
    and b: "\<forall>j < 32. bit v j \<longleftrightarrow> (\<exists>i < length bs. i mod 32 = j \<and> bs ! i)"
    using bits_fold_word[of bs "length bs"] unfolding bits_to_pattern_def by blast
  have i: "i < 32" using assms by simp
  have "bit (sint v) i \<longleftrightarrow> bit v i"
    using i by (auto simp: bit_sint_iff dest: bit_imp_le_length)
  also have "\<dots> \<longleftrightarrow> (\<exists>i' < length bs. i' mod 32 = i \<and> bs ! i')" using b i by simp
  also have "\<dots> \<longleftrightarrow> bs ! i"
  proof
    assume "\<exists>i' < length bs. i' mod 32 = i \<and> bs ! i'"
    then obtain i' where "i' < length bs" "i' mod 32 = i" "bs ! i'" by blast
    moreover from this assms(1) have "i' mod 32 = i'" by simp
    ultimately show "bs ! i" by simp
  next
    assume "bs ! i"
    with assms(2) i show "\<exists>i' < length bs. i' mod 32 = i \<and> bs ! i'" by (intro exI[of _ i]) simp
  qed
  finally show ?thesis by (simp add: v)
qed



subsection \<open>The region mapper\<close>

lemma mapRegionToPattern_eq:
  "mapRegionToPattern pixels sx sy w h t
   = \<lparr>res_pattern = bits_to_pattern (map (\<lambda>c. isPixelOn c t) (region_pixels pixels sx sy w h)),
      res_fg = averageColors (filter (\<lambda>c. isPixelOn c t) (region_pixels pixels sx sy w h)),
      res_bg = averageColors (filter (\<lambda>c. \<not> isPixelOn c t) (region_pixels pixels sx sy w h))\<rparr>"
  by (simp add: mapRegionToPattern_def scan_region_eq)

lemma isPixelOn_white_black: "isPixelOn WHITE 128" "\<not> isPixelOn BLACK 128"
  by (simp_all add: isPixelOn_def WHITE_def BLACK_def ALPHA_THRESHOLD_def getBrightness_def
      clampByte_def math_round_def)

lemma quadrant_scenario_pixels:
  "region_pixels [[WHITE, BLACK], [BLACK, BLACK]] 0 0 2 2 = [WHITE, BLACK, BLACK, BLACK]"
  by (simp add: region_pixels_def getPixelSafe_def upt_rec_numeral numeral_2_eq_2)

lemma quadrant_scenario_region:
  "mapRegionToPattern [[WHITE, BLACK], [BLACK, BLACK]] 0 0 2 2 128
   = \<lparr>res_pattern = 1, res_fg = WHITE, res_bg = BLACK\<rparr>"
proof -
  have p: "bits_to_pattern [True, False, False, False] = 1"
    by (simp add: bits_to_pattern_def js_or_def js_shl_def upt_rec_numeral)
  have fg: "averageColors [WHITE] = WHITE"
    by (simp add: averageColors_def WHITE_def clampByte_def math_round_def alpha_or_255_def)
  have bg: "averageColors [BLACK, BLACK, BLACK] = BLACK"
    by (simp add: averageColors_def BLACK_def clampByte_def math_round_def alpha_or_255_def)
  show ?thesis
    by (simp add: mapRegionToPattern_eq quadrant_scenario_pixels isPixelOn_white_black p fg bg)
qed

lemma quadrant_scenario_cells:
  "mapPixelsToCells [[WHITE, BLACK], [BLACK, BLACK]] QUADRANT 128
   = Some [[\<lparr>cell_char = [9624], cell_fg = WHITE, cell_bg = BLACK\<rparr>]]"
  by (simp add: mapPixelsToCells_def getSymbolDimensions_def QUADRANT_SYMBOLS_def mk_symbol_def
      cell_at_def quadrant_scenario_region findBestSymbol_def Let_def)

lemma wide_region_pixels:
  "region_pixels [replicate 32 BLACK @ [WHITE]] 0 0 33 1 = replicate 32 BLACK @ [WHITE]"
proof -
  have "map (\<lambda>x. getPixelSafe [replicate 32 BLACK @ [WHITE]] (0 + int x) (0 + int 0)) [0..<33]
        = map (\<lambda>x. (replicate 32 BLACK @ [WHITE]) ! x) [0..<33]"
    by (intro map_cong) (auto simp: getPixelSafe_def)
  also have "\<dots> = replicate 32 BLACK @ [WHITE]"
    by (rule map_nth[of "replicate 32 BLACK @ [WHITE]", simplified])
  finally show ?thesis by (simp add: region_pixels_def)
qed

lemma wide_region_pattern:
  "res_pattern (mapRegionToPattern [replicate 32 BLACK @ [WHITE]] 0 0 33 1 128) = 1"
proof -
  let ?bs = "replicate 32 False @ [True]"
  let ?F = "\<lambda>bitPattern i. if ?bs ! i then js_or bitPattern (js_shl 1 (int i)) else bitPattern"
  have f: "foldl ?F 0 [0..<k] = 0" if "k \<le> 32" for k
    using that by (induction k) (simp_all add: nth_append)
  have "bits_to_pattern ?bs = foldl ?F 0 [0..<Suc 32]"
    by (simp add: bits_to_pattern_def)
  also have "\<dots> = ?F (foldl ?F 0 [0..<32]) 32"
    by (simp only: upt_Suc_append[OF le0] foldl_append foldl.simps)
  also have "\<dots> = ?F 0 32" by (simp only: f[OF order_refl])
  also have "\<dots> = js_or 0 (js_shl 1 32)" by (simp add: nth_append)
  also have "\<dots> = 1" by (simp add: js_or_def js_shl_def)
  finally show ?thesis
    by (simp add: mapRegionToPattern_eq wide_region_pixels isPixelOn_white_black)
qed


text \<open>
  Claim C3, as amended.  For a region of at most 32 pixels, \<open>mapRegionToPattern\<close> scans
  the region in row-major order (pixel \<open>i\<close> is at column \<open>i mod width\<close> of row
  \<open>i div width\<close> of the region), bit \<open>i\<close> of the pattern is set exactly when pixel \<open>i\<close> is
  on, the foreground is the average of the pixels that are on and the background the
  average of those that are off, and a pixel outside the buffer is read as opaque black.
  A 2 by 2 buffer whose only white pixel is \<open>(0, 0)\<close> gives, at threshold 128, the pattern
  1 and, with the quadrant symbols, the single cell of glyph U+2598.
\<close>

theorem mapRegionToPattern_row_major_bits:
  assumes "nat height * nat width \<le> 32"
  shows "(\<forall>i < nat height * nat width.
            bit (res_pattern (mapRegionToPattern pixels startX startY width height threshold)) i
            \<longleftrightarrow> isPixelOn (getPixelSafe pixels (startX + int (i mod nat width))
                             (startY + int (i div nat width))) threshold)
         \<and> length (region_pixels pixels startX startY width height) = nat height * nat width
         \<and> (\<forall>i < nat height * nat width.
               region_pixels pixels startX startY width height ! i
               = getPixelSafe pixels (startX + int (i mod nat width))
                   (startY + int (i div nat width)))
         \<and> res_fg (mapRegionToPattern pixels startX startY width height threshold)
             = averageColors (filter (\<lambda>c. isPixelOn c threshold)
                 (region_pixels pixels startX startY width height))
         \<and> res_bg (mapRegionToPattern pixels startX startY width height threshold)
             = averageColors (filter (\<lambda>c. \<not> isPixelOn c threshold)
                 (region_pixels pixels startX startY width height))
         \<and> (\<forall>x y. \<not> (0 \<le> y \<and> y < int (length pixels) \<and> 0 \<le> x
                        \<and> x < int (length (pixels ! nat y)))
                   \<longrightarrow> getPixelSafe pixels x y = BLACK)
         \<and> mapRegionToPattern [[WHITE, BLACK], [BLACK, BLACK]] 0 0 2 2 128
             = \<lparr>res_pattern = 1, res_fg = WHITE, res_bg = BLACK\<rparr>
         \<and> mapPixelsToCells [[WHITE, BLACK], [BLACK, BLACK]] QUADRANT 128
             = Some [[\<lparr>cell_char = [9624], cell_fg = WHITE, cell_bg = BLACK\<rparr>]]"
proof -
  let ?ps = "region_pixels pixels startX startY width height"
  let ?bs = "map (\<lambda>c. isPixelOn c threshold) ?ps"
  have len: "length ?bs = nat height * nat width" by (simp add: region_pixels_length)
  have "bit (res_pattern (mapRegionToPattern pixels startX startY width height threshold)) i
        \<longleftrightarrow> isPixelOn (getPixelSafe pixels (startX + int (i mod nat width))
                         (startY + int (i div nat width))) threshold"
    if i: "i < nat height * nat width" for i
  proof -
    have "bit (bits_to_pattern ?bs) i \<longleftrightarrow> ?bs ! i"
      using assms i len by (intro bits_to_pattern_bit) simp_all
    also have "\<dots> \<longleftrightarrow> isPixelOn (?ps ! i) threshold"
      using i by (simp add: region_pixels_length)
    finally show ?thesis
      using i by (simp add: mapRegionToPattern_eq region_pixels_nth)
  qed
  then show ?thesis
    by (simp add: region_pixels_length region_pixels_nth getPixelSafe_outside
        quadrant_scenario_region quadrant_scenario_cells)
      (simp add: mapRegionToPattern_eq)
qed

theorem mapRegionToPattern_row_major_bits_witness:
  "bit (res_pattern (mapRegionToPattern [[WHITE, BLACK], [BLACK, BLACK]] 0 0 2 2 128)) 0
   \<and> \<not> bit (res_pattern (mapRegionToPattern [[WHITE, BLACK], [BLACK, BLACK]] 0 0 2 2 128)) 3
   \<and> res_fg (mapRegionToPattern [[WHITE, BLACK], [BLACK, BLACK]] 0 0 2 2 128)
      = averageColors (filter (\<lambda>c. isPixelOn c 128)
          (region_pixels [[WHITE, BLACK], [BLACK, BLACK]] 0 0 2 2))"
proof -
  have h: "nat 2 * nat 2 \<le> 32" by simp
  note t = mapRegionToPattern_row_major_bits[OF h, of "[[WHITE, BLACK], [BLACK, BLACK]]" 0 0 128]
  from t have b: "\<forall>i < nat 2 * nat 2.
      bit (res_pattern (mapRegionToPattern [[WHITE, BLACK], [BLACK, BLACK]] 0 0 2 2 128)) i
      \<longleftrightarrow> isPixelOn (getPixelSafe [[WHITE, BLACK], [BLACK, BLACK]] (0 + int (i mod nat 2))
                       (0 + int (i div nat 2))) 128"
    by blast
  have "bit (res_pattern (mapRegionToPattern [[WHITE, BLACK], [BLACK, BLACK]] 0 0 2 2 128)) 0"
    using b[rule_format, of 0] by (simp add: getPixelSafe_def isPixelOn_white_black)
  moreover
  have "\<not> bit (res_pattern (mapRegionToPattern [[WHITE, BLACK], [BLACK, BLACK]] 0 0 2 2 128)) 3"
    using b[rule_format, of 3] by (simp add: getPixelSafe_def isPixelOn_white_black)
  moreover from t
  have "res_fg (mapRegionToPattern [[WHITE, BLACK], [BLACK, BLACK]] 0 0 2 2 128)
        = averageColors (filter (\<lambda>c. isPixelOn c 128)
            (region_pixels [[WHITE, BLACK], [BLACK, BLACK]] 0 0 2 2))"
    by blast
  ultimately show ?thesis by blast
qed

text \<open>
  The claim as it was stated fails for a region of more than 32 pixels, since \<open>1 << i\<close>
  takes \<open>i\<close> modulo 32: in a row of 33 pixels of which only the last is white, bit 0 of
  the pattern is set although the first pixel scanned is off.
\<close>

theorem mapRegionToPattern_wide_region_counterexample:
  "bit (res_pattern (mapRegionToPattern [replicate 32 BLACK @ [WHITE]] 0 0 33 1 128)) 0
   \<and> \<not> isPixelOn (getPixelSafe [replicate 32 BLACK @ [WHITE]] 0 0) 128"
  by (simp add: wide_region_pattern getPixelSafe_def nth_append isPixelOn_white_black)

section \<open>The grid of cells\<close>

lemma those_map_Some:
  "(\<forall>x \<in> set xs. f x = Some (g x)) \<Longrightarrow> those (map f xs) = Some (map g xs)"
  by (induction xs) simp_all














subsection \<open>The glyphs of a grid\<close>








section \<open>Serialization\<close>
















lemma js_join_Nil: "js_join sep (map f []) = []"
  by simp







lemma gridToString_example:
  "gridToString [[\<lparr>cell_char = [65], cell_fg = WHITE, cell_bg = BLACK\<rparr>,
                   \<lparr>cell_char = [66], cell_fg = WHITE, cell_bg = WHITE\<rparr>]] DEFAULT_OPTIONS
   = [27, 91, 51, 56, 59, 50, 59, 50, 53, 53, 59, 50, 53, 53, 59, 50, 53, 53, 109,
      27, 91, 52, 56, 59, 50, 59, 48, 59, 48, 59, 48, 109, 65,
      27, 91, 52, 56, 59, 50, 59, 50, 53, 53, 59, 50, 53, 53, 59, 50, 53, 53, 109, 66,
      27, 91, 48, 109]"
  by (simp add: gridToString_def DEFAULT_OPTIONS_def row_line_def cell_step_def colorsEqual_def
      WHITE_def BLACK_def fgTruecolor_def bgTruecolor_def resetColors_def clampByte_def
      math_round_def alpha_or_255_def)

section \<open>The loop of drawLine\<close>

lemma foldl_upt_shift:
  "foldl f a [0..<Suc n] = foldl (\<lambda>b j. f b (Suc j)) (f a 0) [0..<n]"
proof -
  have "[0..<Suc n] = 0 # map Suc [0..<n]"
    by (simp add: upt_conv_Cons map_Suc_upt del: upt_Suc)
  then show ?thesis by (simp add: foldl_map del: upt_Suc)
qed

text \<open>
  When the state reaches the end point after exactly \<open>n\<close> updates, the loop returns, and it
  has drawn the steps 0 to \<open>n\<close> in turn.
\<close>

lemma line_loop_returns:
  assumes "\<forall>j < n. \<not> (fst ((bres_next k ^^ j) st) = x2 \<and> fst (snd ((bres_next k ^^ j) st)) = y2)"
    and "fst ((bres_next k ^^ n) st) = x2 \<and> fst (snd ((bres_next k ^^ n) st)) = y2"
  shows "line_loop style c len steep k x2 y2 buffer st step
         = Some (foldl (\<lambda>b j. draw_step style c len steep b
                                 (fst ((bres_next k ^^ j) st))
                                 (fst (snd ((bres_next k ^^ j) st))) (step + j))
                   buffer [0..<Suc n],
                 x2, y2, step + n)"
  using assms
proof (induction n arbitrary: buffer st step)
  case 0
  then show ?case by (subst line_loop.simps) simp
next
  case (Suc n)
  let ?st = "bres_next k st"
  let ?b = "draw_step style c len steep buffer (fst st) (fst (snd st)) step"
  have not0: "\<not> (fst st = x2 \<and> fst (snd st) = y2)"
    using Suc.prems(1)[rule_format, of 0] by simp
  have sh: "(bres_next k ^^ j) ?st = (bres_next k ^^ Suc j) st" for j
    by (simp add: funpow_swap1)
  have a1: "\<forall>j < n. \<not> (fst ((bres_next k ^^ j) ?st) = x2
                        \<and> fst (snd ((bres_next k ^^ j) ?st)) = y2)"
    using Suc.prems(1) unfolding sh by auto
  have a2: "fst ((bres_next k ^^ n) ?st) = x2 \<and> fst (snd ((bres_next k ^^ n) ?st)) = y2"
    using Suc.prems(2) unfolding sh by simp
  have "line_loop style c len steep k x2 y2 buffer st step
        = line_loop style c len steep k x2 y2 ?b ?st (Suc step)"
    by (subst line_loop.simps) (simp only: not0 if_False)
  also have "\<dots> = Some (foldl (\<lambda>b j. draw_step style c len steep b
                                 (fst ((bres_next k ^^ j) ?st))
                                 (fst (snd ((bres_next k ^^ j) ?st))) (Suc step + j))
                   ?b [0..<Suc n],
                 x2, y2, Suc step + n)"
    by (rule Suc.IH[OF a1 a2])
  also have "foldl (\<lambda>b j. draw_step style c len steep b
                                 (fst ((bres_next k ^^ j) ?st))
                                 (fst (snd ((bres_next k ^^ j) ?st))) (Suc step + j))
                   ?b [0..<Suc n]
             = foldl (\<lambda>b j. draw_step style c len steep b
                                 (fst ((bres_next k ^^ j) st))
                                 (fst (snd ((bres_next k ^^ j) st))) (step + j))
                   buffer [0..<Suc (Suc n)]"
    unfolding sh
    by (subst (2) foldl_upt_shift) simp
  finally show ?case by simp
qed

subsection \<open>The error term of the loop\<close>

text \<open>
  One update of a shallow line (\<open>dy \<le> dx\<close>, \<open>0 < dx\<close>) moves \<open>x\<close>; the bounds on the error
  term are kept.
\<close>

lemma bres_next_shallow:
  assumes "dy \<le> dx" "0 < dx" "0 \<le> dy"
    and "- dy < 2 * e" "2 * e < 3 * dx - 2 * dy"
  shows "\<exists>y' e'. bres_next (dx, dy, sx, sy) (x, y, e) = (x + sx, y', e')
           \<and> ((y' = y + sy \<and> e' = e - dy + dx) \<or> (y' = y \<and> e' = e - dy))
           \<and> - dy < 2 * e' \<and> 2 * e' < 3 * dx - 2 * dy"
  using assms by (auto simp: bres_next_def Let_def)

lemma bres_next_steep:
  assumes "dx < dy" "0 \<le> dx"
    and "2 * dx - 3 * dy < 2 * e" "2 * e < dx"
  shows "\<exists>x' e'. bres_next (dx, dy, sx, sy) (x, y, e) = (x', y + sy, e')
           \<and> ((x' = x + sx \<and> e' = e - dy + dx) \<or> (x' = x \<and> e' = e + dx))
           \<and> 2 * dx - 3 * dy < 2 * e' \<and> 2 * e' < dx"
  using assms by (auto simp: bres_next_def Let_def)

lemma shallow_states:
  assumes "dy \<le> dx" "0 < dx" "0 \<le> dy"
  shows "\<exists>b. (bres_next (dx, dy, sx, sy) ^^ j) (x1, y1, dx - dy)
               = (x1 + sx * int j, y1 + sy * b, (b + 1) * dx - (int j + 1) * dy)
             \<and> - dy < 2 * ((b + 1) * dx - (int j + 1) * dy)
             \<and> 2 * ((b + 1) * dx - (int j + 1) * dy) < 3 * dx - 2 * dy"
proof (induction j)
  case 0
  show ?case using assms by (intro exI[of _ 0]) simp
next
  case (Suc j)
  then obtain b where st: "(bres_next (dx, dy, sx, sy) ^^ j) (x1, y1, dx - dy)
               = (x1 + sx * int j, y1 + sy * b, (b + 1) * dx - (int j + 1) * dy)"
    and lo: "- dy < 2 * ((b + 1) * dx - (int j + 1) * dy)"
    and hi: "2 * ((b + 1) * dx - (int j + 1) * dy) < 3 * dx - 2 * dy"
    by blast
  let ?e = "(b + 1) * dx - (int j + 1) * dy"
  from bres_next_shallow[OF assms lo hi, of sx sy "x1 + sx * int j" "y1 + sy * b"]
  obtain y' e' where n: "bres_next (dx, dy, sx, sy) (x1 + sx * int j, y1 + sy * b, ?e)
                          = (x1 + sx * int j + sx, y', e')"
    and c: "(y' = y1 + sy * b + sy \<and> e' = ?e - dy + dx) \<or> (y' = y1 + sy * b \<and> e' = ?e - dy)"
    and b': "- dy < 2 * e'" "2 * e' < 3 * dx - 2 * dy"
    by blast
  have x: "x1 + sx * int j + sx = x1 + sx * int (Suc j)" by (simp add: algebra_simps)
  from c show ?case
  proof
    assume "y' = y1 + sy * b + sy \<and> e' = ?e - dy + dx"
    then have "y' = y1 + sy * (b + 1)" "e' = (b + 1 + 1) * dx - (int (Suc j) + 1) * dy"
      by (simp_all add: algebra_simps)
    with n b' st x show ?thesis by (intro exI[of _ "b + 1"]) simp
  next
    assume "y' = y1 + sy * b \<and> e' = ?e - dy"
    then have "y' = y1 + sy * b" "e' = (b + 1) * dx - (int (Suc j) + 1) * dy"
      by (simp_all add: algebra_simps)
    with n b' st x show ?thesis by (intro exI[of _ b]) simp
  qed
qed

lemma steep_states:
  assumes "dx < dy" "0 \<le> dx"
  shows "\<exists>a. (bres_next (dx, dy, sx, sy) ^^ j) (x1, y1, dx - dy)
               = (x1 + sx * a, y1 + sy * int j, (int j + 1) * dx - (a + 1) * dy)
             \<and> 2 * dx - 3 * dy < 2 * ((int j + 1) * dx - (a + 1) * dy)
             \<and> 2 * ((int j + 1) * dx - (a + 1) * dy) < dx"
proof (induction j)
  case 0
  show ?case using assms by (intro exI[of _ 0]) simp
next
  case (Suc j)
  then obtain a where st: "(bres_next (dx, dy, sx, sy) ^^ j) (x1, y1, dx - dy)
               = (x1 + sx * a, y1 + sy * int j, (int j + 1) * dx - (a + 1) * dy)"
    and lo: "2 * dx - 3 * dy < 2 * ((int j + 1) * dx - (a + 1) * dy)"
    and hi: "2 * ((int j + 1) * dx - (a + 1) * dy) < dx"
    by blast
  let ?e = "(int j + 1) * dx - (a + 1) * dy"
  from bres_next_steep[OF assms lo hi, of sx sy "x1 + sx * a" "y1 + sy * int j"]
  obtain x' e' where n: "bres_next (dx, dy, sx, sy) (x1 + sx * a, y1 + sy * int j, ?e)
                          = (x', y1 + sy * int j + sy, e')"
    and c: "(x' = x1 + sx * a + sx \<and> e' = ?e - dy + dx) \<or> (x' = x1 + sx * a \<and> e' = ?e + dx)"
    and b': "2 * dx - 3 * dy < 2 * e'" "2 * e' < dx"
    by blast
  have y: "y1 + sy * int j + sy = y1 + sy * int (Suc j)" by (simp add: algebra_simps)
  from c show ?case
  proof
    assume "x' = x1 + sx * a + sx \<and> e' = ?e - dy + dx"
    then have "x' = x1 + sx * (a + 1)" "e' = (int (Suc j) + 1) * dx - (a + 1 + 1) * dy"
      by (simp_all add: algebra_simps)
    with n b' st y show ?thesis by (intro exI[of _ "a + 1"]) simp
  next
    assume "x' = x1 + sx * a \<and> e' = ?e + dx"
    then have "x' = x1 + sx * a" "e' = (int (Suc j) + 1) * dx - (a + 1) * dy"
      by (simp_all add: algebra_simps)
    with n b' st y show ?thesis by (intro exI[of _ a]) simp
  qed
qed


lemma product_between:
  fixes m t :: int
  assumes "0 < m" "2 * m * t < 2 * m" "- (2 * m) < 2 * m * t"
  shows "t = 0"
proof (rule ccontr)
  assume "t \<noteq> 0"
  then consider "1 \<le> t" | "t \<le> - 1" by linarith
  then show False
  proof cases
    case 1
    then have "2 * m * 1 \<le> 2 * m * t" using assms(1) by (intro mult_left_mono) simp_all
    with assms(2) show False by simp
  next
    case 2
    then have "2 * m * t \<le> 2 * m * (- 1)" using assms(1) by (intro mult_left_mono) simp_all
    with assms(3) show False by simp
  qed
qed

lemma shallow_end:
  fixes dx dy b :: int
  assumes "dy \<le> dx" "0 < dx" "0 \<le> dy"
    and "- dy < 2 * ((b + 1) * dx - (dx + 1) * dy)"
    and "2 * ((b + 1) * dx - (dx + 1) * dy) < 3 * dx - 2 * dy"
  shows "b = dy"
proof -
  have e: "2 * ((b + 1) * dx - (dx + 1) * dy) = 2 * dx * (b - dy) + 2 * dx - 2 * dy"
    by (simp add: algebra_simps)
  have "b - dy = 0"
    using assms unfolding e by (intro product_between[of dx]) linarith+
  then show ?thesis by simp
qed

lemma steep_end:
  fixes dx dy a :: int
  assumes "dx < dy" "0 \<le> dx"
    and "2 * dx - 3 * dy < 2 * ((dy + 1) * dx - (a + 1) * dy)"
    and "2 * ((dy + 1) * dx - (a + 1) * dy) < dx"
  shows "a = dx"
proof -
  have e: "2 * ((dy + 1) * dx - (a + 1) * dy) = 2 * dy * (dx - a) + 2 * dx - 2 * dy"
    by (simp add: algebra_simps)
  have "dx - a = 0"
    using assms unfolding e by (intro product_between[of dy]) linarith+
  then show ?thesis by simp
qed

lemma sign_times_abs:
  "x1 + (if x1 < x2 then 1 else - 1) * \<bar>x2 - x1\<bar> = (x2 :: int)"
  by simp

lemma sign_times_less:
  assumes "int j < \<bar>x2 - x1\<bar>"
  shows "x1 + (if x1 < x2 then 1 else - 1) * int j \<noteq> (x2 :: int)"
  using assms by (auto split: if_splits)

text \<open>The loop stands at the end point in step \<open>line_last\<close> and in no step before it.\<close>

lemma line_point_state:
  "(bres_next (line_consts x1 y1 x2 y2) ^^ j) (line_start x1 y1 x2 y2) = (x, y, e)
   \<Longrightarrow> line_point x1 y1 x2 y2 j = (x, y)"
  by (simp add: line_point_def)

lemma line_reaches_end:
  "(\<forall>j < line_last x1 y1 x2 y2. line_point x1 y1 x2 y2 j \<noteq> (x2, y2))
   \<and> line_point x1 y1 x2 y2 (line_last x1 y1 x2 y2) = (x2, y2)"
proof -
  define dx dy sx sy where "dx = \<bar>x2 - x1\<bar>" and "dy = \<bar>y2 - y1\<bar>"
    and "sx = (if x1 < x2 then 1 else - 1 :: int)" and "sy = (if y1 < y2 then 1 else - 1 :: int)"
  have k: "line_consts x1 y1 x2 y2 = (dx, dy, sx, sy)"
    and s: "line_start x1 y1 x2 y2 = (x1, y1, dx - dy)"
    by (simp_all add: line_consts_def line_start_def dx_def dy_def sx_def sy_def)
  have ex: "x1 + sx * dx = x2" and ey: "y1 + sy * dy = y2"
    unfolding dx_def dy_def sx_def sy_def by (rule sign_times_abs)+
  have nx: "x1 + sx * int j \<noteq> x2" if "int j < dx" for j
    using that unfolding dx_def sx_def by (rule sign_times_less)
  have ny: "y1 + sy * int j \<noteq> y2" if "int j < dy" for j
    using that unfolding dy_def sy_def by (rule sign_times_less)
  have nonneg: "0 \<le> dx" "0 \<le> dy" by (simp_all add: dx_def dy_def)
  consider (point) "dx = 0" "dy = 0" | (shallow) "dy \<le> dx" "0 < dx" | (steep) "dx < dy"
    using nonneg by linarith
  then show ?thesis
  proof cases
    case point
    then have "x1 = x2" "y1 = y2" by (simp_all add: dx_def dy_def)
    moreover have "line_last x1 y1 x2 y2 = 0"
      using point by (simp add: line_last_def dx_def dy_def)
    ultimately show ?thesis by (simp add: line_point_def line_start_def)
  next
    case shallow
    have last: "line_last x1 y1 x2 y2 = nat dx"
      using shallow by (simp add: line_last_def dx_def dy_def)
    note st = shallow_states[OF shallow nonneg(2), where sx = sx and sy = sy and ?x1.0 = x1
        and ?y1.0 = y1]
    have "line_point x1 y1 x2 y2 j \<noteq> (x2, y2)" if "j < nat dx" for j
    proof -
      from st[of j] obtain b e where
        "(bres_next (dx, dy, sx, sy) ^^ j) (x1, y1, dx - dy) = (x1 + sx * int j, y1 + sy * b, e)"
        by blast
      then have "line_point x1 y1 x2 y2 j = (x1 + sx * int j, y1 + sy * b)"
        by (intro line_point_state) (simp add: k s)
      moreover have "int j < dx" using that by simp
      ultimately show ?thesis using nx by simp
    qed
    moreover have "line_point x1 y1 x2 y2 (nat dx) = (x2, y2)"
    proof -
      from st[of "nat dx"] obtain b where
        b: "(bres_next (dx, dy, sx, sy) ^^ nat dx) (x1, y1, dx - dy)
            = (x1 + sx * int (nat dx), y1 + sy * b, (b + 1) * dx - (int (nat dx) + 1) * dy)"
        and lo: "- dy < 2 * ((b + 1) * dx - (int (nat dx) + 1) * dy)"
        and hi: "2 * ((b + 1) * dx - (int (nat dx) + 1) * dy) < 3 * dx - 2 * dy"
        by blast
      have i: "int (nat dx) = dx" using nonneg by simp
      have "b = dy" using shallow nonneg(2) lo hi unfolding i by (rule shallow_end)
      with b have "line_point x1 y1 x2 y2 (nat dx) = (x1 + sx * dx, y1 + sy * dy)"
        unfolding i by (intro line_point_state) (simp add: k s)
      then show ?thesis by (simp add: ex ey)
    qed
    ultimately show ?thesis by (simp add: last)
  next
    case steep
    have last: "line_last x1 y1 x2 y2 = nat dy"
      using steep by (simp add: line_last_def dx_def dy_def)
    note st = steep_states[OF steep nonneg(1), where sx = sx and sy = sy and ?x1.0 = x1
        and ?y1.0 = y1]
    have "line_point x1 y1 x2 y2 j \<noteq> (x2, y2)" if "j < nat dy" for j
    proof -
      from st[of j] obtain a e where
        "(bres_next (dx, dy, sx, sy) ^^ j) (x1, y1, dx - dy) = (x1 + sx * a, y1 + sy * int j, e)"
        by blast
      then have "line_point x1 y1 x2 y2 j = (x1 + sx * a, y1 + sy * int j)"
        by (intro line_point_state) (simp add: k s)
      moreover have "int j < dy" using that by simp
      ultimately show ?thesis using ny by simp
    qed
    moreover have "line_point x1 y1 x2 y2 (nat dy) = (x2, y2)"
    proof -
      from st[of "nat dy"] obtain a where
        a: "(bres_next (dx, dy, sx, sy) ^^ nat dy) (x1, y1, dx - dy)
            = (x1 + sx * a, y1 + sy * int (nat dy), (int (nat dy) + 1) * dx - (a + 1) * dy)"
        and lo: "2 * dx - 3 * dy < 2 * ((int (nat dy) + 1) * dx - (a + 1) * dy)"
        and hi: "2 * ((int (nat dy) + 1) * dx - (a + 1) * dy) < dx"
        by blast
      have i: "int (nat dy) = dy" using nonneg by simp
      have "a = dx" using steep nonneg(1) lo hi unfolding i by (rule steep_end)
      with a have "line_point x1 y1 x2 y2 (nat dy) = (x1 + sx * dx, y1 + sy * dy)"
        unfolding i by (intro line_point_state) (simp add: k s)
      then show ?thesis by (simp add: ex ey)
    qed
    ultimately show ?thesis by (simp add: last)
  qed
qed

lemma line_point_fst_snd:
  "fst ((bres_next (line_consts x1 y1 x2 y2) ^^ j) (line_start x1 y1 x2 y2))
     = fst (line_point x1 y1 x2 y2 j)"
  "fst (snd ((bres_next (line_consts x1 y1 x2 y2) ^^ j) (line_start x1 y1 x2 y2)))
     = snd (line_point x1 y1 x2 y2 j)"
  by (simp_all add: line_point_def split: prod.splits)

lemma line_loop_steps:
  "line_loop style c len steep (line_consts x1 y1 x2 y2) x2 y2 buffer (line_start x1 y1 x2 y2) 0
   = Some (foldl (\<lambda>b j. draw_step style c len steep b (fst (line_point x1 y1 x2 y2 j))
                           (snd (line_point x1 y1 x2 y2 j)) j)
             buffer [0..<Suc (line_last x1 y1 x2 y2)],
           x2, y2, line_last x1 y1 x2 y2)"
proof -
  have "line_loop style c len steep (line_consts x1 y1 x2 y2) x2 y2 buffer
          (line_start x1 y1 x2 y2) 0
        = Some (foldl (\<lambda>b j. draw_step style c len steep b
                  (fst ((bres_next (line_consts x1 y1 x2 y2) ^^ j) (line_start x1 y1 x2 y2)))
                  (fst (snd ((bres_next (line_consts x1 y1 x2 y2) ^^ j)
                     (line_start x1 y1 x2 y2)))) (0 + j))
                  buffer [0..<Suc (line_last x1 y1 x2 y2)],
                x2, y2, 0 + line_last x1 y1 x2 y2)"
  proof (rule line_loop_returns)
    show "\<forall>j < line_last x1 y1 x2 y2.
            \<not> (fst ((bres_next (line_consts x1 y1 x2 y2) ^^ j) (line_start x1 y1 x2 y2)) = x2
               \<and> fst (snd ((bres_next (line_consts x1 y1 x2 y2) ^^ j)
                     (line_start x1 y1 x2 y2))) = y2)"
      using line_reaches_end[of x1 y1 x2 y2] unfolding line_point_fst_snd
      by (metis prod.collapse)
    show "fst ((bres_next (line_consts x1 y1 x2 y2) ^^ line_last x1 y1 x2 y2)
                (line_start x1 y1 x2 y2)) = x2
          \<and> fst (snd ((bres_next (line_consts x1 y1 x2 y2) ^^ line_last x1 y1 x2 y2)
                (line_start x1 y1 x2 y2))) = y2"
      using line_reaches_end[of x1 y1 x2 y2] unfolding line_point_fst_snd by simp
  qed
  then show ?thesis unfolding line_point_fst_snd by simp
qed

lemma drawLine_loop:
  "drawLine buffer (Finite x1) (Finite y1) (Finite x2) (Finite y2) c style
   = map_option fst
       (line_loop style c (line_length x1 y1 x2 y2) (line_steep x1 y1 x2 y2)
          (line_consts x1 y1 x2 y2) x2 y2 buffer (line_start x1 y1 x2 y2) 0)"
  by (simp add: drawLine_def Let_def line_length_def line_steep_def line_consts_def
      line_start_def)

lemma drawLine_steps:
  "drawLine buffer (Finite x1) (Finite y1) (Finite x2) (Finite y2) c style
   = Some (foldl (\<lambda>b j. draw_step style c (line_length x1 y1 x2 y2) (line_steep x1 y1 x2 y2) b
                           (fst (line_point x1 y1 x2 y2 j)) (snd (line_point x1 y1 x2 y2 j)) j)
             buffer [0..<Suc (line_last x1 y1 x2 y2)])"
  by (simp add: drawLine_loop line_loop_steps)


subsection \<open>Horizontal lines\<close>

lemma horizontal_states:
  assumes "x1 < x2"
  shows "(bres_next (line_consts x1 y x2 y) ^^ j) (line_start x1 y x2 y)
         = (x1 + int j, y, x2 - x1)"
proof (induction j)
  case 0
  show ?case using assms by (simp add: line_start_def)
next
  case (Suc j)
  have "bres_next (line_consts x1 y x2 y) (x1 + int j, y, x2 - x1)
        = (x1 + int j + 1, y, x2 - x1)"
    using assms by (simp add: bres_next_def line_consts_def Let_def)
  with Suc show ?case by (simp add: add.assoc)
qed

lemma horizontal_point:
  "x1 < x2 \<Longrightarrow> line_point x1 y x2 y j = (x1 + int j, y)"
  by (simp add: line_point_def horizontal_states)

lemma drawLine_horizontal:
  assumes "x1 < x2"
  shows "drawLine buffer (Finite x1) (Finite y) (Finite x2) (Finite y) c style
         = Some (foldl (\<lambda>b j. draw_step style c (line_length x1 y x2 y) False b
                                 (x1 + int j) y j)
                   buffer [0..<Suc (nat (x2 - x1))])"
  using assms
  by (simp add: drawLine_steps horizontal_point line_steep_def line_last_def del: upt_Suc)

subsection \<open>The claims on drawLine\<close>



section \<open>Dashes and thickness\<close>

lemma draw_step_pattern:
  assumes "ls_pattern s = Some p" "p \<noteq> []"
  shows "draw_step (Some s) c len steep b x y j
         = (if p ! (j mod length p) = 1
            then draw_step (Some (s\<lparr>ls_pattern := None\<rparr>)) c len steep b x y j
            else b)"
  using assms by (simp add: draw_step_def shouldDraw_def drawColor_def thickness_of_def)

lemma draw_step_empty_pattern:
  assumes "ls_pattern s = Some []"
  shows "draw_step (Some s) c len steep b x y j = b"
  using assms by (simp add: draw_step_def shouldDraw_def)

lemma foldl_unchanged: "foldl (\<lambda>b j. b) a xs = a"
  by (induction xs) simp_all

lemma draw_step_thick:
  assumes "ls_thickness s = Some t" "1 < t"
  shows "draw_step (Some s) c len steep b x y j
         = (if shouldDraw (Some s) j
            then foldl (\<lambda>b i. if steep
                               then setPixel b (x - t div 2 + int i) y (drawColor (Some s) c len j)
                               else setPixel b x (y - t div 2 + int i) (drawColor (Some s) c len j))
                   b [0..<nat t]
            else b)"
  using assms
  by (simp add: draw_step_def thickness_of_def drawThickPixelPerpendicular_def Let_def)

lemma fold_dotted:
  "foldl (\<lambda>b j. if [1, 0, 0 :: int] ! (j mod 3) = 1 then setPixel b (0 + int j) 0 WHITE else b)
     [replicate 20 BLACK] [0..<20]
   = [map (\<lambda>x. if x mod 3 = 0 then WHITE else BLACK) [0..<20]]"
  by code_simp

lemma dotted_scenario:
  "drawLine [replicate 20 BLACK] (Finite 0) (Finite 0) (Finite 19) (Finite 0) WHITE
     (Some \<lparr>ls_pattern = Some [1, 0, 0], ls_thickness = None, ls_startColor = None,
            ls_endColor = None\<rparr>)
   = Some [map (\<lambda>x. if x mod 3 = 0 then WHITE else BLACK) [0..<20]]"
proof -
  let ?s = "\<lparr>ls_pattern = Some [1, 0, 0], ls_thickness = None, ls_startColor = None,
             ls_endColor = None\<rparr>"
  have ds: "draw_step (Some ?s) WHITE len False b x y j
            = (if [1, 0, 0 :: int] ! (j mod 3) = 1 then setPixel b x y WHITE else b)"
    for len b x y j
    by (simp add: draw_step_def shouldDraw_def drawColor_def thickness_of_def)
  have n: "Suc (nat (19 - 0)) = 20" by simp
  have "drawLine [replicate 20 BLACK] (Finite 0) (Finite 0) (Finite 19) (Finite 0) WHITE (Some ?s)
        = Some (foldl (\<lambda>b j. draw_step (Some ?s) WHITE (line_length 0 0 19 0) False b
                                 (0 + int j) 0 j)
                  [replicate 20 BLACK] [0..<Suc (nat (19 - 0))])"
    by (rule drawLine_horizontal) simp
  also have "\<dots> = Some (foldl (\<lambda>b j. if [1, 0, 0 :: int] ! (j mod 3) = 1
                                      then setPixel b (0 + int j) 0 WHITE else b)
                         [replicate 20 BLACK] [0..<20])"
    by (simp only: ds n)
  finally show ?thesis by (simp only: fold_dotted)
qed

lemma fold_thick:
  "foldl (\<lambda>b j. foldl (\<lambda>b i. setPixel b (0 + int j) (1 - 2 div 2 + int i) WHITE) b [0..<nat 2])
     (replicate 4 (replicate 4 BLACK)) [0..<4]
   = [replicate 4 WHITE, replicate 4 WHITE, replicate 4 BLACK, replicate 4 BLACK]"
  by code_simp

lemma thick_scenario:
  "drawLine (replicate 4 (replicate 4 BLACK)) (Finite 0) (Finite 1) (Finite 3) (Finite 1) WHITE
     (Some \<lparr>ls_pattern = None, ls_thickness = Some 2, ls_startColor = None,
            ls_endColor = None\<rparr>)
   = Some [replicate 4 WHITE, replicate 4 WHITE, replicate 4 BLACK, replicate 4 BLACK]"
proof -
  let ?s = "\<lparr>ls_pattern = None, ls_thickness = Some 2, ls_startColor = None,
             ls_endColor = None\<rparr>"
  have ds: "draw_step (Some ?s) WHITE len False b x y j
            = foldl (\<lambda>b i. setPixel b x (y - 2 div 2 + int i) WHITE) b [0..<nat 2]"
    for len b x y j
    by (simp only: draw_step_thick[of ?s 2, simplified])
      (simp add: shouldDraw_def drawColor_def)
  have n: "Suc (nat (3 - 0)) = 4" by simp
  have "drawLine (replicate 4 (replicate 4 BLACK)) (Finite 0) (Finite 1) (Finite 3) (Finite 1)
          WHITE (Some ?s)
        = Some (foldl (\<lambda>b j. draw_step (Some ?s) WHITE (line_length 0 1 3 1) False b
                                 (0 + int j) 1 j)
                  (replicate 4 (replicate 4 BLACK)) [0..<Suc (nat (3 - 0))])"
    by (rule drawLine_horizontal) simp
  also have "\<dots> = Some (foldl (\<lambda>b j. foldl (\<lambda>b i. setPixel b (0 + int j)
                                                     (1 - 2 div 2 + int i) WHITE)
                                       b [0..<nat 2])
                         (replicate 4 (replicate 4 BLACK)) [0..<4])"
    by (simp only: ds n)
  finally show ?thesis by (simp only: fold_thick)
qed


text \<open>
  Claim C5.  With a dash pattern that is not empty, \<open>drawLine\<close> goes through the steps
  0 to \<open>max(|x2 - x1|, |y2 - y1|)\<close> in turn, and in step \<open>j\<close>, at the pixel of that step, it
  draws what the line without the pattern draws there exactly when
  \<open>pattern[j mod pattern.length]\<close> is 1, and leaves the buffer as it is otherwise.  With
  the empty pattern no step finds a 1, and nothing is drawn.  A
  horizontal line over 20 pixels with the pattern \<open>[1, 0, 0]\<close> sets exactly the pixels of
  the steps that are multiples of 3.
\<close>

theorem drawLine_dash_pattern_steps:
  "(ls_pattern s = Some p \<and> p \<noteq> [] \<longrightarrow>
      drawLine buffer (Finite x1) (Finite y1) (Finite x2) (Finite y2) c (Some s)
      = Some (foldl (\<lambda>b j. if p ! (j mod length p) = 1
                             then draw_step (Some (s\<lparr>ls_pattern := None\<rparr>)) c
                                    (line_length x1 y1 x2 y2) (line_steep x1 y1 x2 y2) b
                                    (fst (line_point x1 y1 x2 y2 j))
                                    (snd (line_point x1 y1 x2 y2 j)) j
                             else b)
                buffer [0..<Suc (line_last x1 y1 x2 y2)])
      \<and> (shouldDraw (Some s) k \<longleftrightarrow> p ! (k mod length p) = 1))
   \<and> (ls_pattern s = Some [] \<longrightarrow>
        drawLine buffer (Finite x1) (Finite y1) (Finite x2) (Finite y2) c (Some s) = Some buffer
        \<and> \<not> shouldDraw (Some s) k)
   \<and> drawLine [replicate 20 BLACK] (Finite 0) (Finite 0) (Finite 19) (Finite 0) WHITE
        (Some \<lparr>ls_pattern = Some [1, 0, 0], ls_thickness = None, ls_startColor = None,
               ls_endColor = None\<rparr>)
      = Some [map (\<lambda>x. if x mod 3 = 0 then WHITE else BLACK) [0..<20]]"
proof (intro conjI impI)
  assume a: "ls_pattern s = Some p \<and> p \<noteq> []"
  then have ds: "draw_step (Some s) c len steep b x y j
                 = (if p ! (j mod length p) = 1
                    then draw_step (Some (s\<lparr>ls_pattern := None\<rparr>)) c len steep b x y j
                    else b)" for len steep b x y j
    by (intro draw_step_pattern) simp_all
  show "drawLine buffer (Finite x1) (Finite y1) (Finite x2) (Finite y2) c (Some s)
      = Some (foldl (\<lambda>b j. if p ! (j mod length p) = 1
                             then draw_step (Some (s\<lparr>ls_pattern := None\<rparr>)) c
                                    (line_length x1 y1 x2 y2) (line_steep x1 y1 x2 y2) b
                                    (fst (line_point x1 y1 x2 y2 j))
                                    (snd (line_point x1 y1 x2 y2 j)) j
                             else b)
                buffer [0..<Suc (line_last x1 y1 x2 y2)])"
    by (simp only: drawLine_steps ds)
  show "shouldDraw (Some s) k \<longleftrightarrow> p ! (k mod length p) = 1"
    using a by (simp add: shouldDraw_def)
next
  assume e: "ls_pattern s = Some []"
  show "drawLine buffer (Finite x1) (Finite y1) (Finite x2) (Finite y2) c (Some s) = Some buffer"
    by (simp only: drawLine_steps draw_step_empty_pattern[OF e] foldl_unchanged)
  show "\<not> shouldDraw (Some s) k"
    using e by (simp add: shouldDraw_def)
next
  show "drawLine [replicate 20 BLACK] (Finite 0) (Finite 0) (Finite 19) (Finite 0) WHITE
        (Some \<lparr>ls_pattern = Some [1, 0, 0], ls_thickness = None, ls_startColor = None,
               ls_endColor = None\<rparr>)
      = Some [map (\<lambda>x. if x mod 3 = 0 then WHITE else BLACK) [0..<20]]"
    by (rule dotted_scenario)
qed

theorem drawLine_dash_pattern_steps_witness:
  "shouldDraw (Some \<lparr>ls_pattern = Some [1, 0, 0], ls_thickness = None, ls_startColor = None,
                     ls_endColor = None\<rparr>) 3
   \<and> \<not> shouldDraw (Some \<lparr>ls_pattern = Some [1, 0, 0], ls_thickness = None,
                         ls_startColor = None, ls_endColor = None\<rparr>) 4
   \<and> drawLine [[BLACK, BLACK]] (Finite 0) (Finite 0) (Finite 1) (Finite 0) WHITE
        (Some \<lparr>ls_pattern = Some [1, 0, 0], ls_thickness = None, ls_startColor = None,
               ls_endColor = None\<rparr>)
      = Some (foldl (\<lambda>b j. if [1, 0, 0 :: int] ! (j mod length [1, 0, 0 :: int]) = 1
                             then draw_step
                                    (Some (\<lparr>ls_pattern = Some [1, 0, 0], ls_thickness = None,
                                            ls_startColor = None, ls_endColor = None\<rparr>
                                           \<lparr>ls_pattern := None\<rparr>)) WHITE
                                    (line_length 0 0 1 0) (line_steep 0 0 1 0) b
                                    (fst (line_point 0 0 1 0 j)) (snd (line_point 0 0 1 0 j)) j
                             else b)
                [[BLACK, BLACK]] [0..<Suc (line_last 0 0 1 0)])"
proof -
  let ?s = "\<lparr>ls_pattern = Some [1, 0, 0], ls_thickness = None, ls_startColor = None,
             ls_endColor = None\<rparr>"
  have h: "ls_pattern ?s = Some [1, 0, 0] \<and> [1, 0, 0 :: int] \<noteq> []" by simp
  from drawLine_dash_pattern_steps[of ?s "[1, 0, 0]" "[[BLACK, BLACK]]" 0 0 1 0 WHITE 3] h
  have "shouldDraw (Some ?s) 3" by simp
  moreover
  from drawLine_dash_pattern_steps[of ?s "[1, 0, 0]" "[[BLACK, BLACK]]" 0 0 1 0 WHITE 4] h
  have "\<not> shouldDraw (Some ?s) 4" by simp
  moreover
  from drawLine_dash_pattern_steps[of ?s "[1, 0, 0]" "[[BLACK, BLACK]]" 0 0 1 0 WHITE 0] h
  have "drawLine [[BLACK, BLACK]] (Finite 0) (Finite 0) (Finite 1) (Finite 0) WHITE (Some ?s)
      = Some (foldl (\<lambda>b j. if [1, 0, 0 :: int] ! (j mod length [1, 0, 0 :: int]) = 1
                             then draw_step (Some (?s\<lparr>ls_pattern := None\<rparr>)) WHITE
                                    (line_length 0 0 1 0) (line_steep 0 0 1 0) b
                                    (fst (line_point 0 0 1 0 j)) (snd (line_point 0 0 1 0 j)) j
                             else b)
                [[BLACK, BLACK]] [0..<Suc (line_last 0 0 1 0)])"
    by blast
  ultimately show ?thesis by blast
qed

text \<open>
  Claim C6.  With a thickness \<open>t > 1\<close>, a step that is drawn sets a run of \<open>t\<close> pixels that
  begins \<open>floor(t / 2)\<close> before the pixel of the step: along \<open>x\<close> when the line is steep
  (\<open>|y2 - y1| > |x2 - x1|\<close>, decided once for the line), along \<open>y\<close> otherwise.  On a 4 by 4
  buffer the line from \<open>(0, 1)\<close> to \<open>(3, 1)\<close> of thickness 2 sets the rows 0 and 1 at
  every \<open>x\<close> and leaves the rows 2 and 3 as they are.
\<close>

theorem drawLine_thickness_perpendicular:
  "(ls_thickness s = Some t \<and> 1 < t \<longrightarrow>
      drawLine buffer (Finite x1) (Finite y1) (Finite x2) (Finite y2) c (Some s)
      = Some (foldl (\<lambda>b j.
                if shouldDraw (Some s) j
                then foldl (\<lambda>b i.
                       if \<bar>y2 - y1\<bar> > \<bar>x2 - x1\<bar>
                       then setPixel b (fst (line_point x1 y1 x2 y2 j) - t div 2 + int i)
                              (snd (line_point x1 y1 x2 y2 j))
                              (drawColor (Some s) c (line_length x1 y1 x2 y2) j)
                       else setPixel b (fst (line_point x1 y1 x2 y2 j))
                              (snd (line_point x1 y1 x2 y2 j) - t div 2 + int i)
                              (drawColor (Some s) c (line_length x1 y1 x2 y2) j))
                     b [0..<nat t]
                else b)
              buffer [0..<Suc (line_last x1 y1 x2 y2)]))
   \<and> drawLine (replicate 4 (replicate 4 BLACK)) (Finite 0) (Finite 1) (Finite 3) (Finite 1) WHITE
        (Some \<lparr>ls_pattern = None, ls_thickness = Some 2, ls_startColor = None,
               ls_endColor = None\<rparr>)
      = Some [replicate 4 WHITE, replicate 4 WHITE, replicate 4 BLACK, replicate 4 BLACK]"
proof (intro conjI impI)
  assume a: "ls_thickness s = Some t \<and> 1 < t"
  then have ds: "draw_step (Some s) c len steep b x y j
         = (if shouldDraw (Some s) j
            then foldl (\<lambda>b i. if steep
                               then setPixel b (x - t div 2 + int i) y (drawColor (Some s) c len j)
                               else setPixel b x (y - t div 2 + int i) (drawColor (Some s) c len j))
                   b [0..<nat t]
            else b)" for len steep b x y j
    by (intro draw_step_thick) simp_all
  show "drawLine buffer (Finite x1) (Finite y1) (Finite x2) (Finite y2) c (Some s)
      = Some (foldl (\<lambda>b j.
                if shouldDraw (Some s) j
                then foldl (\<lambda>b i.
                       if \<bar>y2 - y1\<bar> > \<bar>x2 - x1\<bar>
                       then setPixel b (fst (line_point x1 y1 x2 y2 j) - t div 2 + int i)
                              (snd (line_point x1 y1 x2 y2 j))
                              (drawColor (Some s) c (line_length x1 y1 x2 y2) j)
                       else setPixel b (fst (line_point x1 y1 x2 y2 j))
                              (snd (line_point x1 y1 x2 y2 j) - t div 2 + int i)
                              (drawColor (Some s) c (line_length x1 y1 x2 y2) j))
                     b [0..<nat t]
                else b)
              buffer [0..<Suc (line_last x1 y1 x2 y2)])"
    by (simp only: drawLine_steps ds line_steep_def)
next
  show "drawLine (replicate 4 (replicate 4 BLACK)) (Finite 0) (Finite 1) (Finite 3) (Finite 1) WHITE
        (Some \<lparr>ls_pattern = None, ls_thickness = Some 2, ls_startColor = None,
               ls_endColor = None\<rparr>)
      = Some [replicate 4 WHITE, replicate 4 WHITE, replicate 4 BLACK, replicate 4 BLACK]"
    by (rule thick_scenario)
qed

theorem drawLine_thickness_perpendicular_witness:
  "drawLine [[BLACK], [BLACK], [BLACK]] (Finite 0) (Finite 1) (Finite 0) (Finite 1) WHITE
     (Some \<lparr>ls_pattern = None, ls_thickness = Some 3, ls_startColor = None,
            ls_endColor = None\<rparr>)
   = Some [[WHITE], [WHITE], [WHITE]]"
proof -
  let ?s = "\<lparr>ls_pattern = None, ls_thickness = Some 3, ls_startColor = None,
             ls_endColor = None\<rparr>"
  have h: "ls_thickness ?s = Some 3 \<and> (1::int) < 3" by simp
  have dc: "drawColor (Some ?s) WHITE len j = WHITE" for len j
    by (simp add: drawColor_def)
  have sd: "shouldDraw (Some ?s) j" for j
    by (simp add: shouldDraw_def)
  from drawLine_thickness_perpendicular[of ?s 3 "[[BLACK], [BLACK], [BLACK]]" 0 1 0 1 WHITE] h
  have "drawLine [[BLACK], [BLACK], [BLACK]] (Finite 0) (Finite 1) (Finite 0) (Finite 1) WHITE
          (Some ?s)
        = Some (foldl (\<lambda>b j.
                if shouldDraw (Some ?s) j
                then foldl (\<lambda>b i.
                       if \<bar>1 - 1 :: int\<bar> > \<bar>0 - 0 :: int\<bar>
                       then setPixel b (fst (line_point 0 1 0 1 j) - 3 div 2 + int i)
                              (snd (line_point 0 1 0 1 j))
                              (drawColor (Some ?s) WHITE (line_length 0 1 0 1) j)
                       else setPixel b (fst (line_point 0 1 0 1 j))
                              (snd (line_point 0 1 0 1 j) - 3 div 2 + int i)
                              (drawColor (Some ?s) WHITE (line_length 0 1 0 1) j))
                     b [0..<nat 3]
                else b)
              [[BLACK], [BLACK], [BLACK]] [0..<Suc (line_last 0 1 0 1)])"
    by blast
  also have "\<dots> = Some [[WHITE], [WHITE], [WHITE]]"
    unfolding dc sd by code_simp
  finally show ?thesis .
qed

end
